theory Spec2Isabelle
  imports Complex_Main
begin

section \<open>Python strings\<close>

text \<open>
  A Python \<open>str\<close> is modelled as a \<open>string\<close>: one \<open>char\<close> per code point, for the
  code points 0 to 255. \<open>len\<close> is \<open>length\<close>. The character classes below are the ones
  Python uses on that range: \<open>str.isspace\<close> (also the regex class \<open>\s\<close> and the set
  removed by \<open>strip()\<close>), \<open>str.isalnum\<close>, and the regex class \<open>\w\<close>
  (alphanumeric or underscore).
\<close>

definition NL :: char where
  "NL = CHR 0x0A"

definition DQ :: char where
  "DQ = CHR 0x22"

definition py_isspace :: "char \<Rightarrow> bool" where
  "py_isspace c = (c \<in> set [CHR 0x09, CHR 0x0A, CHR 0x0B, CHR 0x0C, CHR 0x0D,
       CHR 0x1C, CHR 0x1D, CHR 0x1E, CHR 0x1F, CHR 0x20, CHR 0x85, CHR 0xA0])"

definition in_range :: "nat \<Rightarrow> nat \<Rightarrow> char \<Rightarrow> bool" where
  "in_range lo hi c = (lo \<le> of_char c \<and> (of_char c :: nat) \<le> hi)"

definition py_isalnum :: "char \<Rightarrow> bool" where
  "py_isalnum c = (in_range 0x30 0x39 c \<or> in_range 0x41 0x5A c \<or> in_range 0x61 0x7A c
      \<or> c \<in> set [CHR 0xAA, CHR 0xB2, CHR 0xB3, CHR 0xB5, CHR 0xB9, CHR 0xBA,
                    CHR 0xBC, CHR 0xBD, CHR 0xBE]
      \<or> in_range 0xC0 0xD6 c \<or> in_range 0xD8 0xF6 c \<or> in_range 0xF8 0xFF c)"

definition py_isword :: "char \<Rightarrow> bool" where
  "py_isword c = (py_isalnum c \<or> c = CHR ''_'')"

definition py_lower_char :: "char \<Rightarrow> char" where
  "py_lower_char c = (if in_range 0x41 0x5A c \<or> in_range 0xC0 0xD6 c \<or> in_range 0xD8 0xDE c
                      then char_of (of_char c + (32::nat)) else c)"

definition lower :: "string \<Rightarrow> string" where
  "lower s = map py_lower_char s"

definition lstrip :: "string \<Rightarrow> string" where
  "lstrip s = dropWhile py_isspace s"

definition rstrip :: "string \<Rightarrow> string" where
  "rstrip s = rev (dropWhile py_isspace (rev s))"

definition strip :: "string \<Rightarrow> string" where
  "strip s = rstrip (lstrip s)"

definition rstrip_chars :: "string \<Rightarrow> string \<Rightarrow> string" where
  \<comment> \<open>\<open>s.rstrip(chars)\<close>: drop trailing characters that occur in \<open>chars\<close>\<close>
  "rstrip_chars chars s = rev (dropWhile (\<lambda>c. c \<in> set chars) (rev s))"

definition startswith :: "string \<Rightarrow> string \<Rightarrow> bool" where
  "startswith s p = (take (length p) s = p)"

definition endswith :: "string \<Rightarrow> string \<Rightarrow> bool" where
  "endswith s p = (length p \<le> length s \<and> drop (length s - length p) s = p)"

fun contains :: "string \<Rightarrow> string \<Rightarrow> bool" where
  \<comment> \<open>\<open>sub in s\<close>\<close>
  "contains sub [] = (sub = [])"
| "contains sub (c # cs) = (startswith (c # cs) sub \<or> contains sub cs)"

fun split_on :: "char \<Rightarrow> string \<Rightarrow> string list" where
  \<comment> \<open>\<open>s.split(d)\<close> for a one-character separator: never the empty list\<close>
  "split_on d [] = [[]]"
| "split_on d (c # cs) =
     (if c = d then [] # split_on d cs
      else (case split_on d cs of [] \<Rightarrow> [[c]] | x # xs \<Rightarrow> (c # x) # xs))"

fun join :: "string \<Rightarrow> string list \<Rightarrow> string" where
  "join d [] = []"
| "join d [x] = x"
| "join d (x # y # ys) = x @ d @ join d (y # ys)"

definition count_char :: "char \<Rightarrow> string \<Rightarrow> nat" where
  "count_char c s = length (filter (\<lambda>x. x = c) s)"

section \<open>Regular expressions\<close>

text \<open>
  The patterns of the source are written as terms of \<open>rexp\<close>. \<open>Atom P\<close> is one character
  of a class, \<open>Bol\<close> is \<open>^\<close>, \<open>Eol\<close> is \<open>$\<close> (end of the string, or just before a newline
  that ends the string) and \<open>WordB\<close> is \<open>\b\<close>. A matching state is the character before
  the current position (if any) and the text that remains; \<open>rmatch r st\<close> lists the
  states in which a match of \<open>r\<close> started at \<open>st\<close> can end. An iteration of a starred
  pattern that consumes nothing is cut, so the star needs at most as many rounds as
  characters remain. Only the existence of a match is read off
  (\<open>re.match\<close>, \<open>re.search\<close> used as truth values).
\<close>

datatype rexp =
    Eps
  | Atom "char \<Rightarrow> bool"
  | Seq rexp rexp
  | Alt rexp rexp
  | Star rexp
  | Bol
  | Eol
  | WordB

type_synonym mstate = "char option \<times> string"

primrec star_iter :: "(mstate \<Rightarrow> mstate list) \<Rightarrow> nat \<Rightarrow> mstate \<Rightarrow> mstate list" where
  "star_iter f 0 = (\<lambda>st. [st])"
| "star_iter f (Suc n) =
     (\<lambda>st. st # concat (map (star_iter f n)
                 (filter (\<lambda>st'. length (snd st') < length (snd st)) (f st))))"

definition word_before :: "mstate \<Rightarrow> bool" where
  "word_before st = (case fst st of None \<Rightarrow> False | Some c \<Rightarrow> py_isword c)"

definition word_after :: "mstate \<Rightarrow> bool" where
  "word_after st = (case snd st of [] \<Rightarrow> False | c # cs \<Rightarrow> py_isword c)"

primrec rmatch :: "rexp \<Rightarrow> mstate \<Rightarrow> mstate list" where
  "rmatch Eps = (\<lambda>st. [st])"
| "rmatch (Atom P) =
     (\<lambda>st. case snd st of [] \<Rightarrow> [] | c # cs \<Rightarrow> if P c then [(Some c, cs)] else [])"
| "rmatch (Seq a b) = (\<lambda>st. concat (map (rmatch b) (rmatch a st)))"
| "rmatch (Alt a b) = (\<lambda>st. rmatch a st @ rmatch b st)"
| "rmatch (Star a) = (\<lambda>st. star_iter (rmatch a) (length (snd st)) st)"
| "rmatch Bol = (\<lambda>st. if fst st = None then [st] else [])"
| "rmatch Eol = (\<lambda>st. if snd st = [] \<or> snd st = [NL] then [st] else [])"
| "rmatch WordB = (\<lambda>st. if word_before st \<noteq> word_after st then [st] else [])"

definition re_match :: "rexp \<Rightarrow> string \<Rightarrow> bool" where
  \<comment> \<open>\<open>re.match(p, s)\<close> as a truth value: a match that starts at position 0\<close>
  "re_match r s = (rmatch r (None, s) \<noteq> [])"

fun search_from :: "rexp \<Rightarrow> char option \<Rightarrow> string \<Rightarrow> bool" where
  "search_from r prev [] = (rmatch r (prev, []) \<noteq> [])"
| "search_from r prev (c # cs) = (rmatch r (prev, c # cs) \<noteq> [] \<or> search_from r (Some c) cs)"

definition re_search :: "rexp \<Rightarrow> string \<Rightarrow> bool" where
  \<comment> \<open>\<open>re.search(p, s)\<close> as a truth value: a match that starts anywhere\<close>
  "re_search r s = search_from r None s"

primrec lit :: "string \<Rightarrow> rexp" where
  "lit [] = Eps"
| "lit (c # cs) = Seq (Atom (\<lambda>x. x = c)) (lit cs)"

definition seqs :: "rexp list \<Rightarrow> rexp" where
  "seqs rs = foldr Seq rs Eps"

definition alts :: "rexp list \<Rightarrow> rexp" where
  "alts rs = foldr Alt (butlast rs) (last rs)"

definition Plus :: "rexp \<Rightarrow> rexp" where
  "Plus r = Seq r (Star r)"

definition Opt :: "rexp \<Rightarrow> rexp" where
  "Opt r = Alt r Eps"

definition ws :: rexp where
  \<comment> \<open>\<open>\s\<close>\<close>
  "ws = Atom py_isspace"

definition wordc :: rexp where
  \<comment> \<open>\<open>\w\<close>\<close>
  "wordc = Atom py_isword"

definition cls :: "string \<Rightarrow> rexp" where
  \<comment> \<open>\<open>[...]\<close> over the listed characters\<close>
  "cls cs = Atom (\<lambda>c. c \<in> set cs)"

definition ncls :: "string \<Rightarrow> rexp" where
  \<comment> \<open>\<open>[^...]\<close>\<close>
  "ncls cs = Atom (\<lambda>c. c \<notin> set cs)"

definition dot :: rexp where
  \<comment> \<open>\<open>.\<close> without DOTALL: any character but a newline\<close>
  "dot = Atom (\<lambda>c. c \<noteq> NL)"

section \<open>Pair extraction: \<open>src/pipeline/extract_nextline_pairs.py\<close>\<close>

definition is_comment_start :: "string \<Rightarrow> bool" where
  \<comment> \<open>the test shared by \<open>is_code_line\<close> and \<open>has_real_code\<close>\<close>
  "is_comment_start stripped =
     (startswith stripped ''//'' \<or> startswith stripped ''/*''
      \<or> startswith stripped ''*'' \<or> startswith stripped ''*/'')"

definition has_template_marker :: "string \<Rightarrow> bool" where
  "has_template_marker line =
     (contains ''| Templates *'' line
      \<or> contains ''open the template in the editor. */ /* *'' line)"

definition is_code_line :: "string \<Rightarrow> bool" where
  "is_code_line line =
     (let stripped = strip line in
      if stripped = [] then False
      else if is_comment_start stripped then False
      else if has_template_marker line then False
      else True)"

definition code_indices :: "string list \<Rightarrow> nat list" where
  \<comment> \<open>\<open>[i for i, l in enumerate(lines) if is_code_line(l)]\<close>\<close>
  "code_indices lines = filter (\<lambda>i. is_code_line (lines ! i)) [0..<length lines]"

definition only_punct_re :: rexp where
  \<comment> \<open>\<open>^[\s{}\[\]();,\.]*$\<close>\<close>
  "only_punct_re =
     seqs [Bol, Star (Atom (\<lambda>c. py_isspace c \<or> c \<in> set ''{}[]();,.'')), Eol]"

fun has_real_code :: "string list \<Rightarrow> bool" where
  "has_real_code [] = False"
| "has_real_code (line # lines) =
     (let stripped = strip line in
      if stripped = [] then has_real_code lines
      else if is_comment_start stripped then has_real_code lines
      else if re_match only_punct_re stripped then has_real_code lines
      else if startswith stripped ''#'' \<and> \<not> startswith stripped ''#include''
        then has_real_code lines
      else True)"

definition is_context_comment :: "string \<Rightarrow> bool" where
  "is_context_comment l =
     (startswith (strip l) ''/*'' \<or> startswith (strip l) ''//'' \<or> startswith (strip l) ''*'')"

definition clean_input_context :: "string list \<Rightarrow> string list" where
  "clean_input_context context_lines =
     filter (\<lambda>l. \<not> is_context_comment l)
       (dropWhile (\<lambda>l. strip l = [] \<or> is_context_comment l) context_lines)"

function drop_unpaired :: "string list \<Rightarrow> int \<Rightarrow> int \<Rightarrow> string list" where
  "drop_unpaired cleaned open_brackets close_brackets =
     (if cleaned \<noteq> [] \<and> close_brackets > open_brackets \<and> strip (last cleaned) = ''}''
      then drop_unpaired (butlast cleaned) open_brackets (close_brackets - 1)
      else cleaned)"
  by pat_completeness auto
termination
  by (relation "measure (\<lambda>(cleaned, ob, cb). length cleaned)") auto

definition clean_output_lines :: "string list \<Rightarrow> string list" where
  "clean_output_lines output_lines =
     (let cleaned = filter (\<lambda>l. strip l \<noteq> ''{'') output_lines;
          cleaned = rev (dropWhile (\<lambda>l. strip l = ''{'') (rev cleaned));
          cleaned = (if length cleaned = 1 \<and> endswith (strip (hd cleaned)) ''{''
                     then [rstrip (rstrip_chars '' {'' (hd cleaned))] else cleaned);
          cleaned = map lstrip cleaned;
          cleaned = filter (\<lambda>l. strip l \<noteq> ''}'') cleaned;
          open_brackets = (\<Sum>l\<leftarrow>cleaned. int (count_char (CHR ''{'') l));
          close_brackets = (\<Sum>l\<leftarrow>cleaned. int (count_char (CHR ''}'') l))
      in drop_unpaired cleaned open_brackets close_brackets)"

definition if_family_re :: rexp where
  \<comment> \<open>\<open>#\s*if(def|ndef)?\b\<close>\<close>
  "if_family_re = seqs [lit ''#'', Star ws, lit ''if'', Opt (Alt (lit ''def'') (lit ''ndef'')), WordB]"

text \<open>
  The loop of \<open>has_invalid_preprocessor_structure\<close>, with the stack of openers as
  an argument. \<open>stack.pop()\<close> removes the last element; it is only reached with a
  non-empty stack.
\<close>

fun scan_preprocessor :: "string list \<Rightarrow> string list \<Rightarrow> bool" where
  "scan_preprocessor stack [] = False"
| "scan_preprocessor stack (line # rest) =
     (let stripped = strip line in
      if startswith stripped ''#'' then
        if re_match if_family_re stripped then scan_preprocessor (stack @ [''if'']) rest
        else if startswith stripped ''#else'' then
          (if stack = [] then True else scan_preprocessor stack rest)
        else if startswith stripped ''#elif'' then
          (if stack = [] then True else scan_preprocessor stack rest)
        else if startswith stripped ''#endif'' then
          (if stack = [] then True else scan_preprocessor (butlast stack) rest)
        else scan_preprocessor stack rest
      else scan_preprocessor stack rest)"

definition has_invalid_preprocessor_structure :: "string list \<Rightarrow> bool" where
  "has_invalid_preprocessor_structure context_lines = scan_preprocessor [] context_lines"

text \<open>
  The scan as the specification words it. A line is a directive when its stripped form
  is \<open>#\<close>, the name of the directive and a word boundary; the same test is used for
  every name. \<open>spaced\<close> says whether whitespace may stand between \<open>#\<close> and the name,
  as the C preprocessor allows (\<open># ifdef\<close>, \<open># else\<close>); both readings are given. The
  stack of openers is kept as its height.
\<close>

datatype directive = Opener | Else | Elif | Endif | NoDirective

definition directive_re :: "bool \<Rightarrow> string \<Rightarrow> rexp" where
  "directive_re spaced name =
     seqs [lit ''#'', (if spaced then Star ws else Eps), lit name, WordB]"

definition spec_directive :: "bool \<Rightarrow> string \<Rightarrow> directive" where
  "spec_directive spaced line =
     (let stripped = strip line in
      if re_match (directive_re spaced ''if'') stripped
         \<or> re_match (directive_re spaced ''ifdef'') stripped
         \<or> re_match (directive_re spaced ''ifndef'') stripped then Opener
      else if re_match (directive_re spaced ''else'') stripped then Else
      else if re_match (directive_re spaced ''elif'') stripped then Elif
      else if re_match (directive_re spaced ''endif'') stripped then Endif
      else NoDirective)"

fun spec_scan :: "bool \<Rightarrow> nat \<Rightarrow> string list \<Rightarrow> bool" where
  "spec_scan spaced height [] = False"
| "spec_scan spaced height (line # rest) =
     (case spec_directive spaced line of
        Opener \<Rightarrow> spec_scan spaced (height + 1) rest
      | Else \<Rightarrow> (if height = 0 then True else spec_scan spaced height rest)
      | Elif \<Rightarrow> (if height = 0 then True else spec_scan spaced height rest)
      | Endif \<Rightarrow> (if height = 0 then True else spec_scan spaced (height - 1) rest)
      | NoDirective \<Rightarrow> spec_scan spaced height rest)"

definition spec_invalid :: "bool \<Rightarrow> string list \<Rightarrow> bool" where
  "spec_invalid spaced context_lines = spec_scan spaced 0 context_lines"

subsection \<open>Candidates and the two strategies\<close>

definition rstrip_nl :: "string \<Rightarrow> string" where
  \<comment> \<open>\<open>line.rstrip('\n')\<close>\<close>
  "rstrip_nl s = rstrip_chars [NL] s"

definition closing_punct_re :: rexp where
  \<comment> \<open>\<open>^\s*[\}\];,]+\s*$\<close>\<close>
  "closing_punct_re = seqs [Bol, Star ws, Plus (cls ''}];,''), Star ws, Eol]"

definition fim_content :: "string \<times> string \<Rightarrow> string" where
  "fim_content pair_tuple =
     ''<fim_prefix>'' @ fst pair_tuple @ ''<fim_suffix><fim_middle>'' @ snd pair_tuple"

text \<open>
  The context window of a candidate, cleaned: \<open>None\<close> when the window would start
  before the file does. \<open>code_indices ! idx\<close> is in range in every call: the loops
  keep \<open>idx\<close> below the number of code lines.
\<close>

definition cleaned_context :: "string list \<Rightarrow> nat list \<Rightarrow> nat \<Rightarrow> nat \<Rightarrow> string list option" where
  "cleaned_context lines code_idx idx context_len =
     (let context_end = int (code_idx ! idx);
          context_start = context_end - int context_len + 1
      in if context_start < 0 then None
         else Some (clean_input_context
                (map (\<lambda>i. rstrip_nl (lines ! i)) [nat context_start..<nat (context_end + 1)])))"

definition cleaned_output :: "string list \<Rightarrow> nat list \<Rightarrow> nat \<Rightarrow> nat \<Rightarrow> string list" where
  "cleaned_output lines code_idx idx output_len =
     clean_output_lines
       (map (\<lambda>j. rstrip_nl (lines ! (code_idx ! (idx + j))))
            (filter (\<lambda>j. idx + j < length code_idx) [1..<output_len + 1]))"

text \<open>
  The body of the innermost loop up to the deduplication: the pair a candidate yields,
  or \<open>None\<close> where the source continues with the next candidate.
\<close>

definition candidate :: "string list \<Rightarrow> nat list \<Rightarrow> nat \<Rightarrow> nat \<Rightarrow> nat \<Rightarrow> (string \<times> string) option" where
  "candidate lines code_idx idx context_len output_len =
     (case cleaned_context lines code_idx idx context_len of
        None \<Rightarrow> None
      | Some context_lines \<Rightarrow>
          if has_invalid_preprocessor_structure context_lines then None
          else
            let output_lines = cleaned_output lines code_idx idx output_len in
            if context_lines \<noteq> [] \<and> output_lines \<noteq> [] then
              if \<not> has_real_code output_lines then None
              else if \<not> re_match closing_punct_re (last context_lines)
                      \<and> \<not> list_ex has_template_marker (context_lines @ output_lines)
                then Some (join [NL] context_lines, join [NL] output_lines)
                else None
            else None)"

text \<open>
  A record of the corpus is a JSON object: a dictionary from field names to values.
\<close>

datatype jval = JStr string | JNum rat | JBool bool | JNull

type_synonym fim_record = "string \<rightharpoonup> jval"

text \<open>
  The state of the extraction: the emitted records, each kept with the
  \<open>pair_tuple\<close> it was built from, and the set \<open>seen_pairs\<close>.
\<close>

type_synonym ext_state = "((string \<times> string) \<times> fim_record) list \<times> (string \<times> string) set"

definition emit :: "ext_state \<Rightarrow> string \<times> string \<Rightarrow> ext_state" where
  "emit st pair_tuple =
     (if pair_tuple \<notin> snd st
      then (fst st @ [(pair_tuple, [''content'' \<mapsto> JStr (fim_content pair_tuple)])],
            insert pair_tuple (snd st))
      else st)"

definition try_candidate ::
  "string list \<Rightarrow> nat list \<Rightarrow> nat \<Rightarrow> nat \<Rightarrow> ext_state \<Rightarrow> nat \<Rightarrow> ext_state" where
  "try_candidate lines code_idx output_len idx st context_len =
     (case candidate lines code_idx idx context_len output_len of
        None \<Rightarrow> st
      | Some pair_tuple \<Rightarrow> emit st pair_tuple)"

definition strategy1 ::
  "string list \<Rightarrow> nat list \<Rightarrow> nat \<Rightarrow> nat \<Rightarrow> ext_state \<Rightarrow> ext_state" where
  \<comment> \<open>\<open>range(len(code_indices) - output_len)\<close> is empty when the difference is negative\<close>
  "strategy1 lines code_idx min_context max_context st0 =
     foldl (\<lambda>st output_len.
        foldl (\<lambda>st idx.
           foldl (try_candidate lines code_idx output_len idx) st
                 [min_context..<max_context + 1])
          st [0..<length code_idx - output_len])
       st0 [1, 2]"

definition strategy2 ::
  "string list \<Rightarrow> nat list \<Rightarrow> nat \<Rightarrow> nat \<Rightarrow> nat \<Rightarrow> ext_state \<Rightarrow> ext_state" where
  \<comment> \<open>\<open>range(0, len(code_indices) - max_output, 2)\<close>\<close>
  "strategy2 lines code_idx min_context max_context max_output st0 =
     foldl (\<lambda>st idx.
        foldl (try_candidate lines code_idx max_output idx) st
              [min_context..<max_context + 1])
       st0 (filter (\<lambda>i. i mod 2 = 0) [0..<length code_idx - max_output])"

definition extract_tagged ::
  "string list \<Rightarrow> nat \<Rightarrow> nat \<Rightarrow> nat \<Rightarrow> ((string \<times> string) \<times> fim_record) list" where
  "extract_tagged lines min_context max_context max_output =
     (let code_idx = code_indices lines;
          st = strategy1 lines code_idx min_context max_context ([], {});
          st = strategy2 lines code_idx min_context max_context max_output st
      in fst st)"

definition extract_pairs_from_file :: "string list \<Rightarrow> nat \<Rightarrow> nat \<Rightarrow> nat \<Rightarrow> fim_record list" where
  \<comment> \<open>the argument is the list \<open>f.readlines()\<close> returns\<close>
  "extract_pairs_from_file lines min_context max_context max_output =
     map snd (extract_tagged lines min_context max_context max_output)"

section \<open>Reading the FIM markers\<close>

text \<open>
  The three searches with a group, written out. A search takes the leftmost position
  where the pattern can match, and a lazy group \<open>(.*?)\<close> (with DOTALL) grows one
  character at a time until the rest of the pattern matches. For
  \<open><fim_prefix>(.*?)<fim_suffix>\<close> that is the text between the first opening marker and
  the first closing marker after it: if no closing marker follows the first opening
  marker, none follows a later one. \<open>$\<close> holds at the end of the string and just before
  a newline that ends the string.
\<close>

fun after_first :: "string \<Rightarrow> string \<Rightarrow> string option" where
  \<comment> \<open>the text after the first occurrence of the marker\<close>
  "after_first m [] = (if m = [] then Some [] else None)"
| "after_first m (c # cs) =
     (if startswith (c # cs) m then Some (drop (length m) (c # cs)) else after_first m cs)"

fun before_first :: "string \<Rightarrow> string \<Rightarrow> string option" where
  \<comment> \<open>the text before the first occurrence of the marker\<close>
  "before_first m [] = (if m = [] then Some [] else None)"
| "before_first m (c # cs) =
     (if startswith (c # cs) m then Some []
      else (case before_first m cs of None \<Rightarrow> None | Some g \<Rightarrow> Some (c # g)))"

definition between :: "string \<Rightarrow> string \<Rightarrow> string \<Rightarrow> string option" where
  \<comment> \<open>group 1 of \<open>re.search(a(.*?)b, s, re.DOTALL)\<close>\<close>
  "between a b s = (case after_first a s of None \<Rightarrow> None | Some r \<Rightarrow> before_first b r)"

fun lazy_to_end :: "string \<Rightarrow> string" where
  \<comment> \<open>\<open>(.*?)$\<close>\<close>
  "lazy_to_end [] = []"
| "lazy_to_end (c # cs) = (if c # cs = [NL] then [] else c # lazy_to_end cs)"

fun lazy_to_lt_or_end :: "string \<Rightarrow> string" where
  \<comment> \<open>\<open>(.*?)(?:<|$)\<close>\<close>
  "lazy_to_lt_or_end [] = []"
| "lazy_to_lt_or_end (c # cs) =
     (if c = CHR ''<'' then [] else if c # cs = [NL] then [] else c # lazy_to_lt_or_end cs)"

definition extract_fim_parts :: "string \<Rightarrow> (string \<rightharpoonup> string)" where
  \<comment> \<open>\<open>filter_quality_fim_tasks.py\<close> and \<open>calculate_comprehensive_quality_scores.py\<close>\<close>
  "extract_fim_parts content =
     (let parts = Map.empty;
          parts = (case between ''<fim_prefix>'' ''<fim_suffix>'' content of
                     Some g \<Rightarrow> parts(''prefix'' \<mapsto> g) | None \<Rightarrow> parts);
          parts = (case between ''<fim_suffix>'' ''<fim_middle>'' content of
                     Some g \<Rightarrow> parts(''suffix'' \<mapsto> g) | None \<Rightarrow> parts);
          parts = (case after_first ''<fim_middle>'' content of
                     Some r \<Rightarrow> parts(''middle'' \<mapsto> lazy_to_end r) | None \<Rightarrow> parts)
      in parts)"

definition extract_fim_middle :: "string \<Rightarrow> string" where
  \<comment> \<open>\<open>apply_middle_content_filter.py\<close>\<close>
  "extract_fim_middle content =
     (case after_first ''<fim_middle>'' content of
        Some r \<Rightarrow> strip (lazy_to_lt_or_end r) | None \<Rightarrow> [])"

definition extract_fim_components :: "string \<Rightarrow> string \<times> string" where
  \<comment> \<open>\<open>apply_phase3b_improved_filter.py\<close>\<close>
  "extract_fim_components content =
     (let prefix = (case between ''<fim_prefix>'' ''<fim_suffix>'' content of
                      Some g \<Rightarrow> strip g | None \<Rightarrow> []);
          middle = (case after_first ''<fim_middle>'' content of
                      Some r \<Rightarrow> strip (lazy_to_lt_or_end r) | None \<Rightarrow> [])
      in (prefix, middle))"

section \<open>Phase 2: \<open>src/apply_middle_content_filter.py\<close>\<close>

text \<open>
  Scores are Python floats in the source and exact rationals here. Every score
  leaves its function through \<open>min\<close> and \<open>max\<close> against the constants 0 and 1, which
  are exact in both.
\<close>

definition endswith_any :: "string \<Rightarrow> string list \<Rightarrow> bool" where
  \<comment> \<open>\<open>s.endswith((a, b, ...))\<close>\<close>
  "endswith_any s sufs = list_ex (endswith s) sufs"

definition contains_any :: "string \<Rightarrow> string list \<Rightarrow> bool" where
  \<comment> \<open>\<open>any(kw in s for kw in kws)\<close>\<close>
  "contains_any s kws = list_ex (\<lambda>kw. contains kw s) kws"

definition call_re :: rexp where
  \<comment> \<open>\<open>\w+\s*\([^)]*\)\<close>\<close>
  "call_re = seqs [Plus wordc, Star ws, lit ''('', Star (ncls '')''), lit '')'']"

definition kw_paren_re :: "string \<Rightarrow> rexp" where
  \<comment> \<open>\<open>if\s*\(\<close>, \<open>for\s*\(\<close>, \<open>while\s*\(\<close>\<close>
  "kw_paren_re kw = seqs [lit kw, Star ws, lit ''('']"

definition return_re :: rexp where
  \<comment> \<open>\<open>return\s+\<close>\<close>
  "return_re = seqs [lit ''return'', Plus ws]"

definition phase2_meaningful_patterns :: "rexp list" where
  "phase2_meaningful_patterns =
     [call_re,
      seqs [Plus wordc, Star ws, lit ''='', Star ws],
      return_re,
      kw_paren_re ''if'',
      kw_paren_re ''for'',
      kw_paren_re ''while'']"

definition is_symbol_char :: "char \<Rightarrow> bool" where
  \<comment> \<open>the class \<open>[{}\(\)\[\];,\s]\<close>\<close>
  "is_symbol_char c = (c \<in> set ''{}()[];,'' \<or> py_isspace c)"

definition pure_symbols_re :: rexp where
  \<comment> \<open>\<open>^[{}\(\)\[\];,\s]*$\<close>\<close>
  "pure_symbols_re = seqs [Bol, Star (Atom is_symbol_char), Eol]"

definition access_specifier_re :: rexp where
  \<comment> \<open>\<open>^\s*(public|private|protected)\s*:\s*$\<close>\<close>
  "access_specifier_re =
     seqs [Bol, Star ws, alts [lit ''public'', lit ''private'', lit ''protected''],
           Star ws, lit '':'', Star ws, Eol]"

definition calculate_middle_quality_score :: "string \<Rightarrow> rat" where
  "calculate_middle_quality_score middle_content =
     (if middle_content = [] then 0
      else
        let content = strip middle_content;
            score = 6 / 10;
            len = length content;
            score = (if 10 \<le> len \<and> len \<le> 100 then score + 2 / 10
                     else if 5 \<le> len \<and> len \<le> 200 then score + 1 / 10 else score);
            score = (if \<not> endswith_any content ['','', ''::'', ''->'', ''.'', ''(''] then score + 1 / 10
                     else score);
            score = (if list_ex (\<lambda>pattern. re_search pattern content) phase2_meaningful_patterns
                     then score + 5 / 100 else score);
            score = (if re_match pure_symbols_re content then score - 3 / 10 else score)
        in min (max score 0) 1)"

definition should_reject_middle :: "string \<Rightarrow> bool \<times> string" where
  "should_reject_middle middle_content =
     (if middle_content = [] then (True, ''empty'')
      else
        let content = strip middle_content in
        if endswith content '','' then (True, ''incomplete_comma'')
        else if re_match access_specifier_re content then (True, ''standalone_access_specifier'')
        else if length content \<le> 2 then (True, ''too_short'')
        else if re_match pure_symbols_re content then (True, ''pure_symbols'')
        else if endswith_any content [''::'', ''->'', ''.'', ''(''] \<and> length content < 15
          then (True, ''incomplete_scope'')
        else (False, ''acceptable''))"

section \<open>Phase 3: \<open>src/pipeline/apply_phase3b_improved_filter.py\<close>\<close>

text \<open>
  \<open>ratio\<close> is the quotient of two lengths. It is compared with the ceilings only after
  the length checks, so the prefix has 50 to 5000 characters and the middle 8 to 400:
  on those quotients the comparison of doubles and the comparison of the exact
  rationals agree, since a quotient that differs from a ceiling differs by at least
  1/25000. The same holds for the product with 0.3 in the whitespace check.
\<close>

definition length_score_prefix :: "nat \<Rightarrow> rat \<Rightarrow> rat" where
  "length_score_prefix prefix_len score =
     (if 200 \<le> prefix_len \<and> prefix_len \<le> 1000 then score + 2 / 10
      else if 100 \<le> prefix_len \<and> prefix_len \<le> 2000 then score + 1 / 10
      else if prefix_len < 50 \<or> prefix_len > 5000 then score - 2 / 10
      else score)"

definition length_score_middle :: "nat \<Rightarrow> rat \<Rightarrow> rat" where
  "length_score_middle middle_len score =
     (if 20 \<le> middle_len \<and> middle_len \<le> 150 then score + 2 / 10
      else if 10 \<le> middle_len \<and> middle_len \<le> 300 then score + 1 / 10
      else if middle_len < 8 \<or> middle_len > 400 then score - 2 / 10
      else score)"

definition ratio_targets :: "nat \<Rightarrow> rat \<times> rat" where
  \<comment> \<open>\<open>(optimal_ratio, max_good_ratio)\<close>\<close>
  "ratio_targets prefix_len =
     (if prefix_len \<le> 150 then (4 / 10, 8 / 10)
      else if prefix_len \<le> 300 then (3 / 10, 6 / 10)
      else if prefix_len \<le> 500 then (25 / 100, 4 / 10)
      else (2 / 10, 3 / 10))"

definition calculate_length_quality_score :: "string \<Rightarrow> string \<Rightarrow> rat" where
  "calculate_length_quality_score prefix middle =
     (if prefix = [] \<or> middle = [] then 0
      else
        let prefix_len = length prefix;
            middle_len = length middle;
            ratio = of_nat middle_len / of_nat prefix_len;
            score = 5 / 10;
            score = length_score_prefix prefix_len score;
            score = length_score_middle middle_len score;
            (optimal_ratio, max_good_ratio) = ratio_targets prefix_len;
            score = (if ratio \<le> optimal_ratio then score + 1 / 10
                     else if ratio \<le> max_good_ratio then score + 5 / 100
                     else score - 1 / 10)
        in min (max score 0) 1)"

definition max_ratio_for :: "nat \<Rightarrow> rat" where
  "max_ratio_for prefix_len =
     (if prefix_len \<le> 150 then 12 / 10
      else if prefix_len \<le> 300 then 8 / 10
      else if prefix_len \<le> 500 then 6 / 10
      else 4 / 10)"

definition digit_char :: "nat \<Rightarrow> char" where
  "digit_char d = ''0123456789'' ! d"

function decimal :: "nat \<Rightarrow> string" where
  "decimal n = (if n < 10 then [digit_char n] else decimal (n div 10) @ [digit_char (n mod 10)])"
  by pat_completeness auto
termination
  by (relation "measure id") auto

definition should_reject_improved :: "string \<Rightarrow> string \<Rightarrow> bool \<times> string" where
  "should_reject_improved prefix middle =
     (if prefix = [] \<or> middle = [] then (True, ''missing_components'')
      else
        let prefix_len = length prefix;
            middle_len = length middle;
            ratio = (of_nat middle_len / of_nat prefix_len :: rat) in
        if prefix_len < 50 then (True, ''prefix_too_short'')
        else if prefix_len > 5000 then (True, ''prefix_too_long'')
        else if middle_len < 8 then (True, ''middle_too_short'')
        else if middle_len > 400 then (True, ''middle_too_long'')
        else
          let max_ratio = max_ratio_for prefix_len in
          if ratio > max_ratio
            then (True, ''ratio_too_large_'' @ decimal (nat \<lfloor>max_ratio * 100\<rfloor>))
          else if ratio < 1 / 100 then (True, ''ratio_too_small'')
          else if strip middle \<noteq> [] \<and> py_isalnum (last (strip middle))
                  \<and> \<not> contains '' '' (strip middle) \<and> length (strip middle) < 15
            then (True, ''incomplete_word'')
          else if prefix_len < 80 \<and> middle_len > 200
            then (True, ''short_prefix_very_long_middle'')
          else
            let middle_stripped = strip middle in
            if (of_nat (length middle_stripped) :: rat) < of_nat (length middle) * (3 / 10)
              then (True, ''mostly_whitespace'')
            else (False, ''acceptable''))"

section \<open>Phase 1: \<open>src/pipeline/filter_quality_fim_tasks.py\<close>\<close>

definition upper_az :: "char \<Rightarrow> bool" where
  \<comment> \<open>the class \<open>[A-Z]\<close>\<close>
  "upper_az c = in_range 0x41 0x5A c"

definition only_symbols_re :: rexp where
  \<comment> \<open>\<open>^[\s\{\}\[\]\(\);,\.]+$\<close>\<close>
  "only_symbols_re =
     seqs [Bol, Plus (Atom (\<lambda>c. py_isspace c \<or> c \<in> set ''{}[]();,.'')), Eol]"

definition only_close_brace_re :: rexp where
  \<comment> \<open>\<open>^[\s}]+$\<close>\<close>
  "only_close_brace_re = seqs [Bol, Plus (Atom (\<lambda>c. py_isspace c \<or> c = CHR ''}'')), Eol]"

definition meaningless_patterns :: "rexp list" where
  "meaningless_patterns =
     [seqs [Bol, Plus (cls '';,''), Eol],
      seqs [Bol, Star ws, lit '')'', Star ws, Star (cls '';{''), Star ws, Eol],
      seqs [Bol, Star ws, lit ''else'', Star ws, Eol],
      seqs [Bol, Star ws, lit ''++'', Star ws, Eol],
      seqs [Bol, Star ws, lit ''--'', Star ws, Eol]]"

definition bare_namespace_re :: rexp where
  \<comment> \<open>\<open>^\s*namespace\s+\w+\s*$\<close>\<close>
  "bare_namespace_re =
     seqs [Bol, Star ws, lit ''namespace'', Plus ws, Plus wordc, Star ws, Eol]"

definition include_re :: rexp where
  \<comment> \<open>\<open>#include\s*[<"]\<close>\<close>
  "include_re = seqs [lit ''#include'', Star ws, cls [CHR ''<'', DQ]]"

definition meaningful_patterns :: "rexp list" where
  "meaningful_patterns =
     [call_re,
      seqs [lit ''class'', Plus ws, Plus wordc],
      seqs [lit ''struct'', Plus ws, Plus wordc],
      seqs [Plus wordc, Star ws, lit ''='', Star ws, Plus wordc],
      kw_paren_re ''if'',
      kw_paren_re ''for'',
      kw_paren_re ''while'',
      return_re,
      include_re,
      seqs [lit ''using'', Plus ws, lit ''namespace''],
      lit ''public:'', lit ''private:'', lit ''protected:'',
      seqs [Plus wordc, lit ''::'', Plus wordc]]"

definition type_keyword_re :: rexp where
  \<comment> \<open>\<open>\b(int|double|float|char|bool|void|const|static|virtual|inline)\b\<close>\<close>
  "type_keyword_re =
     seqs [WordB,
           alts [lit ''int'', lit ''double'', lit ''float'', lit ''char'', lit ''bool'',
                 lit ''void'', lit ''const'', lit ''static'', lit ''virtual'', lit ''inline''],
           WordB]"

definition tb_token_re :: rexp where
  \<comment> \<open>\<open>\bTB[A-Z]+\b\<close>\<close>
  "tb_token_re = seqs [WordB, lit ''TB'', Plus (Atom upper_az), WordB]"

definition cpp_keywords :: "string list" where
  "cpp_keywords =
     [''const'', ''static'', ''virtual'', ''override'', ''public'', ''private'', ''protected'',
      ''class'', ''struct'', ''enum'', ''typedef'', ''template'', ''typename'', ''namespace'']"

definition is_comment_line :: "string \<Rightarrow> bool" where
  "is_comment_line l =
     (startswith (strip l) ''//'' \<or> startswith (strip l) ''/*'' \<or> startswith (strip l) ''*'')"

definition is_meaningful_code_completion :: "string \<Rightarrow> string \<Rightarrow> bool" where
  "is_meaningful_code_completion middle prefix =
     (if middle = [] \<or> strip middle = [] then False
      else
        let middle_stripped = strip middle in
        if length middle_stripped < 5 then False
        else if re_match only_symbols_re middle_stripped then False
        else if re_match only_close_brace_re middle_stripped \<or> middle_stripped = ''return;''
          then False
        else if list_ex (\<lambda>pattern. re_match pattern middle_stripped) meaningless_patterns
          then False
        else if startswith middle_stripped ''#''
                \<and> \<not> contains_any middle_stripped [''#include'', ''#define'', ''#ifndef'', ''#ifdef'']
          then False
        else
          let lines = split_on NL middle;
              non_comment_lines = filter (\<lambda>l. strip l \<noteq> [] \<and> \<not> is_comment_line l) lines in
          if non_comment_lines = [] then False
          else if re_match bare_namespace_re middle_stripped then False
          else if list_ex (\<lambda>pattern. re_search pattern middle_stripped) meaningful_patterns
            then True
          else if re_search type_keyword_re middle_stripped then True
          else if contains_any middle_stripped cpp_keywords then True
          else if re_search tb_token_re middle_stripped \<or> contains ''tbricks::'' middle_stripped
            then True
          else False)"

text \<open>
  \<open>has_logical_context_flow\<close> has the same text in \<open>filter_quality_fim_tasks.py\<close> and in
  \<open>calculate_comprehensive_quality_scores.py\<close>.
\<close>

definition access_colon_re :: rexp where
  \<comment> \<open>\<open>(public|private|protected)\s*:\<close>\<close>
  "access_colon_re =
     seqs [alts [lit ''public'', lit ''private'', lit ''protected''], Star ws, lit '':'']"

definition signature_end_re :: rexp where
  \<comment> \<open>\<open>\w+\s*\([^)]*\)\s*(const)?\s*$\<close>\<close>
  "signature_end_re =
     seqs [Plus wordc, Star ws, lit ''('', Star (ncls '')''), lit '')'', Star ws,
           Opt (lit ''const''), Star ws, Eol]"

definition logical_continuations :: "(rexp \<times> (string \<Rightarrow> bool)) list" where
  "logical_continuations =
     [(include_re,
       \<lambda>m. contains ''#include'' m \<or> contains ''namespace'' m \<or> contains ''using'' m),
      (seqs [lit ''namespace'', Plus ws, Plus wordc],
       \<lambda>m. contains ''{'' m \<or> contains_any m [''class'', ''struct'', ''enum'', ''void'', ''int'']),
      (seqs [Alt (lit ''class'') (lit ''struct''), Plus ws, Plus wordc],
       \<lambda>m. contains ''{'' m \<or> contains '':'' m \<or> contains ''public'' m \<or> contains ''private'' m),
      (signature_end_re,
       \<lambda>m. contains ''{'' m \<or> contains_any m [''return'', ''if'', ''for'', ''while'']),
      (access_colon_re,
       \<lambda>m. contains_any m [''void'', ''int'', ''double'', ''virtual'', ''static'', ''const''])]"

fun flow_loop :: "(rexp \<times> (string \<Rightarrow> bool)) list \<Rightarrow> string \<Rightarrow> string \<Rightarrow> bool" where
  \<comment> \<open>the \<open>for\<close> loop over the continuation rules, and the \<open>return True\<close> after it\<close>
  "flow_loop [] last_prefix_line middle_stripped = True"
| "flow_loop ((pattern, check_func) # rest) last_prefix_line middle_stripped =
     (if re_search pattern last_prefix_line then
        (if check_func middle_stripped then True
         else flow_loop rest last_prefix_line middle_stripped)
      else flow_loop rest last_prefix_line middle_stripped)"

definition has_logical_context_flow :: "string \<Rightarrow> string \<Rightarrow> string \<Rightarrow> bool" where
  "has_logical_context_flow prefix middle suffix =
     (let prefix_lines = split_on NL (strip prefix) in
      if prefix_lines = [] then False
      else
        let last_prefix_line = strip (last prefix_lines);
            middle_stripped = strip middle
        in flow_loop logical_continuations last_prefix_line middle_stripped)"

definition incomplete_control_patterns :: "rexp list" where
  "incomplete_control_patterns =
     [seqs [Bol, lit ''if'', Star ws, lit ''(''],
      seqs [Bol, lit ''else'', Star ws, Eol],
      seqs [Bol, lit ''else'', Star ws, lit ''if'', Star ws, lit ''(''],
      seqs [Bol, lit ''for'', Star ws, lit ''(''],
      seqs [Bol, lit ''while'', Star ws, lit ''(''],
      seqs [Bol, lit ''switch'', Star ws, lit ''(''],
      seqs [Bol, lit ''catch'', Star ws, lit ''(''],
      seqs [Bol, lit ''try'', Star ws, Eol],
      seqs [Bol, lit ''return'', Star ws, Star (ncls '';''), Eol]]"

definition single_word_re :: rexp where
  \<comment> \<open>\<open>^\w+$\<close>\<close>
  "single_word_re = seqs [Bol, Plus wordc, Eol]"

definition function_decl_re :: rexp where
  \<comment> \<open>\<open>^[\w:<>~]+.*\w+\s*\([^)]*\)\<close>\<close>
  "function_decl_re =
     seqs [Bol, Plus (Atom (\<lambda>c. py_isword c \<or> c \<in> set '':<>~'')), Star dot, Plus wordc,
           Star ws, lit ''('', Star (ncls '')''), lit '')'']"

definition macro_call_re :: rexp where
  \<comment> \<open>\<open>^[A-Z_]+\(\<close>\<close>
  "macro_call_re = seqs [Bol, Plus (Atom (\<lambda>c. upper_az c \<or> c = CHR ''_'')), lit ''('']"

definition variable_decl_re :: rexp where
  \<comment> \<open>\<open>^(const\s+)?(static\s+)?(virtual\s+)?[\w:<>]+\s+\w+\s*[=;]\<close>\<close>
  "variable_decl_re =
     seqs [Bol, Opt (seqs [lit ''const'', Plus ws]), Opt (seqs [lit ''static'', Plus ws]),
           Opt (seqs [lit ''virtual'', Plus ws]),
           Plus (Atom (\<lambda>c. py_isword c \<or> c \<in> set '':<>'')), Plus ws, Plus wordc, Star ws,
           cls ''=;'']"

definition meaningful_complete_patterns :: "rexp list" where
  "meaningful_complete_patterns =
     [seqs [Bol, lit ''#'', Plus wordc],
      seqs [Bol, Plus wordc, Plus ws, Plus wordc, Star dot, cls '';{'', Eol],
      seqs [Bol, lit ''typedef'', Plus ws],
      seqs [Bol, lit ''template'', Star ws, lit ''<''],
      seqs [Bol, Plus wordc, lit ''::'', Plus wordc]]"

definition first_nonblank :: "string list \<Rightarrow> string option" where
  \<comment> \<open>the loop that finds \<open>first_line\<close>: the first line that is not blank, stripped\<close>
  "first_nonblank lines =
     (case filter (\<lambda>stripped. stripped \<noteq> []) (map strip lines) of
        [] \<Rightarrow> None | stripped # rest \<Rightarrow> Some stripped)"

definition leading_spaces_of :: "string list \<Rightarrow> nat" where
  \<comment> \<open>\<open>original_first_line = lines[0] if lines else ""\<close> and its leading whitespace\<close>
  "leading_spaces_of lines =
     (let original_first_line = (case lines of [] \<Rightarrow> [] | l # rest \<Rightarrow> l)
      in length original_first_line - length (lstrip original_first_line))"

definition starts_with_complete_code_line :: "string \<Rightarrow> bool" where
  "starts_with_complete_code_line prefix =
     (if prefix = [] \<or> strip prefix = [] then False
      else
        let lines = split_on NL prefix in
        case first_nonblank lines of
          None \<Rightarrow> False
        | Some first_line \<Rightarrow>
            if leading_spaces_of lines > 4 then False
            else if list_ex (\<lambda>pattern. re_match pattern first_line) incomplete_control_patterns
              then False
            else if re_match only_punct_re first_line then False
            else if re_match single_word_re first_line then False
            else if startswith first_line ''#include''
                    \<and> (endswith first_line (''.h'' @ [DQ]) \<or> endswith first_line (''.hpp'' @ [DQ])
                        \<or> endswith first_line ''>'' \<or> contains [DQ] first_line)
              then True
            else if startswith first_line ''#pragma'' then True
            else if startswith first_line ''#ifndef'' \<or> startswith first_line ''#ifdef''
                    \<or> startswith first_line ''#define''
              then True
            else if startswith first_line ''namespace '' \<or> startswith first_line ''using ''
              then True
            else if startswith first_line ''class '' \<or> startswith first_line ''struct ''
                    \<or> startswith first_line ''enum ''
              then True
            else if re_match function_decl_re first_line then True
            else if re_match macro_call_re first_line \<or> startswith first_line ''auto ''
                    \<or> startswith first_line ''const '' \<or> startswith first_line ''static ''
              then False
            else if contains ''::'' first_line \<and> contains ''('' first_line
                    \<and> \<not> startswith first_line ''#''
              then False
            else if re_match variable_decl_re first_line then False
            else if rstrip_chars '':'' first_line \<in> set [''public'', ''private'', ''protected'']
              then False
            else if list_ex (\<lambda>pattern. re_match pattern first_line) meaningful_complete_patterns
              then True
            else False)"

definition get_part :: "(string \<rightharpoonup> string) \<Rightarrow> string \<Rightarrow> string" where
  \<comment> \<open>\<open>parts.get(key, '')\<close>\<close>
  "get_part parts key = (case parts key of None \<Rightarrow> [] | Some v \<Rightarrow> v)"

definition meaningful_constructs :: "string list" where
  "meaningful_constructs =
     [''class'', ''struct'', ''namespace'', ''public:'', ''private:'', ''virtual'', ''const'']"

definition context_bonuses :: "string \<Rightarrow> rat \<Rightarrow> rat" where
  \<comment> \<open>the three bonuses on the middle, the same text in both scoring functions\<close>
  "context_bonuses middle score0 =
     (let middle_len = length (strip middle);
          score = (if 10 \<le> middle_len \<and> middle_len \<le> 200 then score0 + 2 / 10
                   else if 5 \<le> middle_len \<and> middle_len \<le> 300 then score0 + 1 / 10
                   else score0);
          score = (if contains ''tbricks'' (lower middle) \<or> re_search tb_token_re middle
                   then score + 1 / 10 else score);
          score = (if contains_any middle meaningful_constructs then score + 1 / 10 else score)
      in score)"

definition calculate_quality_score :: "(string \<rightharpoonup> string) \<Rightarrow> rat" where
  "calculate_quality_score parts =
     (let prefix = get_part parts ''prefix'';
          middle = get_part parts ''middle'';
          suffix = get_part parts ''suffix'';
          score = 0 in
      if \<not> starts_with_complete_code_line prefix then 0
      else
        let score = (if is_meaningful_code_completion middle prefix then score + 4 / 10
                     else score);
            score = (if has_logical_context_flow prefix middle suffix then score + 2 / 10
                     else score);
            score = context_bonuses middle score
        in min score 1)"

section \<open>The composite scorer: \<open>src/pipeline/calculate_comprehensive_quality_scores.py\<close>\<close>

definition is_meaningful_code_completion_composite :: "string \<Rightarrow> string \<Rightarrow> bool" where
  "is_meaningful_code_completion_composite middle prefix =
     (if middle = [] \<or> strip middle = [] then False
      else
        let middle_stripped = strip middle in
        if length middle_stripped < 5 then False
        else if re_match only_symbols_re middle_stripped then False
        else if re_match only_close_brace_re middle_stripped \<or> middle_stripped = ''return;''
          then False
        else if list_ex (\<lambda>pattern. re_match pattern middle_stripped) meaningless_patterns
          then False
        else if list_ex (\<lambda>pattern. re_search pattern middle_stripped) meaningful_patterns
          then True
        else False)"

definition has_logical_context_flow_composite :: "string \<Rightarrow> string \<Rightarrow> string \<Rightarrow> bool" where
  "has_logical_context_flow_composite prefix middle suffix =
     (let prefix_lines = split_on NL (strip prefix) in
      if prefix_lines = [] then False
      else
        let last_prefix_line = strip (last prefix_lines);
            middle_stripped = strip middle
        in flow_loop logical_continuations last_prefix_line middle_stripped)"

definition meaningful_starts :: "rexp list" where
  "meaningful_starts =
     [seqs [Bol, lit ''#include''],
      seqs [Bol, lit ''#pragma''],
      seqs [Bol, lit ''#ifndef''],
      seqs [Bol, lit ''#ifdef''],
      seqs [Bol, lit ''#define''],
      seqs [Bol, lit ''namespace'', Plus ws],
      seqs [Bol, lit ''using'', Plus ws],
      seqs [Bol, lit ''class'', Plus ws],
      seqs [Bol, lit ''struct'', Plus ws],
      seqs [Bol, lit ''enum'', Plus ws]]"

definition starts_with_complete_code_line_composite :: "string \<Rightarrow> bool" where
  "starts_with_complete_code_line_composite prefix =
     (if prefix = [] \<or> strip prefix = [] then False
      else
        let lines = split_on NL prefix in
        case first_nonblank lines of
          None \<Rightarrow> False
        | Some first_line \<Rightarrow>
            if leading_spaces_of lines > 4 then False
            else if list_ex (\<lambda>pattern. re_match pattern first_line) meaningful_starts then True
            else if re_match function_decl_re first_line then True
            else False)"

definition calculate_phase1_score :: "(string \<rightharpoonup> string) \<Rightarrow> rat" where
  "calculate_phase1_score parts =
     (let prefix = get_part parts ''prefix'';
          middle = get_part parts ''middle'';
          suffix = get_part parts ''suffix'' in
      if \<not> starts_with_complete_code_line_composite prefix then 0
      else
        let score = 0;
            score = (if is_meaningful_code_completion_composite middle prefix then score + 4 / 10
                     else score);
            score = (if has_logical_context_flow_composite prefix middle suffix
                     then score + 2 / 10 else score);
            score = context_bonuses middle score
        in min score 1)"

definition calculate_phase2_score :: "string \<Rightarrow> rat" where
  \<comment> \<open>the text of \<open>calculate_middle_quality_score\<close>\<close>
  "calculate_phase2_score middle =
     (if middle = [] then 0
      else
        let content = strip middle;
            score = 6 / 10;
            len = length content;
            score = (if 10 \<le> len \<and> len \<le> 100 then score + 2 / 10
                     else if 5 \<le> len \<and> len \<le> 200 then score + 1 / 10 else score);
            score = (if \<not> endswith_any content ['','', ''::'', ''->'', ''.'', ''(''] then score + 1 / 10
                     else score);
            score = (if list_ex (\<lambda>pattern. re_search pattern content) phase2_meaningful_patterns
                     then score + 5 / 100 else score);
            score = (if re_match pure_symbols_re content then score - 3 / 10 else score)
        in min (max score 0) 1)"

definition calculate_phase3_score :: "string \<Rightarrow> string \<Rightarrow> rat" where
  \<comment> \<open>the text of \<open>calculate_length_quality_score\<close>\<close>
  "calculate_phase3_score prefix middle =
     (if prefix = [] \<or> middle = [] then 0
      else
        let prefix_len = length prefix;
            middle_len = length middle;
            ratio = of_nat middle_len / of_nat prefix_len;
            score = 5 / 10;
            score = length_score_prefix prefix_len score;
            score = length_score_middle middle_len score;
            (optimal_ratio, max_good_ratio) = ratio_targets prefix_len;
            score = (if ratio \<le> optimal_ratio then score + 1 / 10
                     else if ratio \<le> max_good_ratio then score + 5 / 100
                     else score - 1 / 10)
        in min (max score 0) 1)"

definition calculate_composite_score :: "rat \<Rightarrow> rat \<Rightarrow> rat \<Rightarrow> rat" where
  "calculate_composite_score phase1_score phase2_score phase3_score =
     (let composite = 5 / 10 * phase1_score + 3 / 10 * phase2_score + 2 / 10 * phase3_score
      in min (max composite 0) 1)"

record quality_scores =
  phase1_context_quality :: rat
  phase2_middle_quality :: rat
  phase3_length_quality :: rat
  composite_quality :: rat

record quality_metrics =
  prefix_length :: nat
  middle_length :: nat
  ratio_metric :: rat
  has_complete_prefix :: bool
  has_meaningful_completion :: bool
  has_logical_flow :: bool

text \<open>
  The scores and the metrics the composite stage computes for one record from its
  \<open>content\<close>: \<open>None\<close> when the record is skipped for a missing prefix or middle. The
  tier label is left out: it compares the composite, a double, with the thresholds,
  and a sum of doubles can fall just below a threshold that the exact sum reaches.
\<close>

definition comprehensive_scores ::
  "string \<Rightarrow> (quality_scores \<times> quality_metrics) option" where
  "comprehensive_scores content =
     (let parts = extract_fim_parts content in
      if parts ''prefix'' = None \<or> parts ''middle'' = None then None
      else
        let prefix = get_part parts ''prefix'';
            middle = get_part parts ''middle'';
            phase1_score = calculate_phase1_score parts;
            phase2_score = calculate_phase2_score middle;
            phase3_score = calculate_phase3_score prefix middle;
            composite_score = calculate_composite_score phase1_score phase2_score phase3_score
        in Some
             (\<lparr>phase1_context_quality = phase1_score,
               phase2_middle_quality = phase2_score,
               phase3_length_quality = phase3_score,
               composite_quality = composite_score\<rparr>,
              \<lparr>prefix_length = length prefix,
               middle_length = length middle,
               ratio_metric = (if length prefix > 0
                               then of_nat (length middle) / of_nat (length prefix) else 0),
               has_complete_prefix = starts_with_complete_code_line_composite prefix,
               has_meaningful_completion = is_meaningful_code_completion_composite middle prefix,
               has_logical_flow =
                 has_logical_context_flow_composite prefix middle (get_part parts ''suffix'')\<rparr>))"

section \<open>The three filters, record by record\<close>

text \<open>
  Each filter reads \<open>data.get('content', '')\<close>, decides, and writes the record with its
  own annotation fields added (\<open>Some\<close>) or drops it (\<open>None\<close>). A \<open>content\<close> that is not a
  string makes the regular-expression search raise: Phase 1 catches the exception and
  rejects the record, the extraction functions of Phase 2 and Phase 3 catch it and
  return empty strings. The files between the stages are not modelled: a stage reads
  the records as the stage before wrote them.
\<close>

definition task_content :: "fim_record \<Rightarrow> jval" where
  "task_content task = (case task ''content'' of None \<Rightarrow> JStr [] | Some v \<Rightarrow> v)"

definition phase1_record :: "rat \<Rightarrow> fim_record \<Rightarrow> fim_record option" where
  "phase1_record quality_threshold task =
     (case task_content task of
        JStr content \<Rightarrow>
          (let parts = extract_fim_parts content in
           if parts ''prefix'' = None \<or> parts ''middle'' = None then None
           else
             let quality_score = calculate_quality_score parts in
             if quality_score \<ge> quality_threshold
             then Some (task(''quality_score'' \<mapsto> JNum quality_score,
                             ''quality_phase'' \<mapsto> JStr ''phase1_context_quality''))
             else None)
      | _ \<Rightarrow> None)"

definition phase2_record :: "fim_record \<Rightarrow> fim_record option" where
  "phase2_record data =
     (let middle = (case task_content data of
                      JStr content \<Rightarrow> extract_fim_middle content | _ \<Rightarrow> []);
          (should_reject, reason) = should_reject_middle middle in
      if should_reject then None
      else Some (data(''quality_phase2'' \<mapsto> JStr ''passed_middle_content_filter'',
                      ''quality_middle_reason'' \<mapsto> JStr reason,
                      ''quality_middle_score'' \<mapsto> JNum (calculate_middle_quality_score middle))))"

definition phase3_record :: "fim_record \<Rightarrow> fim_record option" where
  "phase3_record data =
     (let (prefix, middle) = (case task_content data of
                                JStr content \<Rightarrow> extract_fim_components content
                              | _ \<Rightarrow> ([], []));
          (should_reject, reason) = should_reject_improved prefix middle in
      if should_reject then None
      else Some (data(''quality_phase3b'' \<mapsto> JStr ''passed_length_based_filter'',
                      ''quality_length_reason'' \<mapsto> JStr reason,
                      ''quality_length_score'' \<mapsto> JNum (calculate_length_quality_score prefix middle),
                      ''quality_prefix_length'' \<mapsto> JNum (of_nat (length prefix)),
                      ''quality_middle_length'' \<mapsto> JNum (of_nat (length middle)),
                      ''quality_ratio'' \<mapsto>
                         JNum (if length prefix > 0
                               then of_nat (length middle) / of_nat (length prefix) else 0))))"

definition filter_quality_fim_tasks :: "rat \<Rightarrow> fim_record list \<Rightarrow> fim_record list" where
  \<comment> \<open>Phase 1 over the records of the input file, in order\<close>
  "filter_quality_fim_tasks quality_threshold tasks =
     List.map_filter (phase1_record quality_threshold) tasks"

definition filter_dataset :: "fim_record list \<Rightarrow> fim_record list" where
  \<comment> \<open>Phase 2\<close>
  "filter_dataset tasks = List.map_filter phase2_record tasks"

definition filter_phase3b :: "fim_record list \<Rightarrow> fim_record list" where
  \<comment> \<open>Phase 3\<close>
  "filter_phase3b tasks = List.map_filter phase3_record tasks"

section \<open>Loop ranges, the extraction invariant and example inputs\<close>

definition in_strategy1 :: "nat list \<Rightarrow> nat \<Rightarrow> nat \<Rightarrow> nat \<Rightarrow> nat \<Rightarrow> nat \<Rightarrow> bool" where
  \<comment> \<open>the triples the loops of the first strategy visit\<close>
  "in_strategy1 code_idx min_context max_context idx context_len output_len =
     ((output_len = 1 \<or> output_len = 2) \<and> idx + output_len < length code_idx
      \<and> min_context \<le> context_len \<and> context_len \<le> max_context)"

definition in_strategy2 :: "nat list \<Rightarrow> nat \<Rightarrow> nat \<Rightarrow> nat \<Rightarrow> nat \<Rightarrow> nat \<Rightarrow> nat \<Rightarrow> bool" where
  \<comment> \<open>the triples the loops of the second strategy visit\<close>
  "in_strategy2 code_idx min_context max_context max_output idx context_len output_len =
     (output_len = max_output \<and> even idx \<and> idx + max_output < length code_idx
      \<and> min_context \<le> context_len \<and> context_len \<le> max_context)"

definition ext_inv :: "ext_state \<Rightarrow> bool" where
  \<comment> \<open>the loop invariant of the extraction\<close>
  "ext_inv st =
     (distinct (map fst (fst st)) \<and> set (map fst (fst st)) = snd st
      \<and> map ((\<lambda>r. r ''content'') \<circ> snd) (fst st)
          = map ((\<lambda>k. Some (JStr (fim_content k))) \<circ> fst) (fst st))"

definition with_newlines :: "string list \<Rightarrow> string list" where
  \<comment> \<open>the lines of a file as \<open>readlines()\<close> returns them\<close>
  "with_newlines ls = map (\<lambda>l. l @ [NL]) ls"


definition spaced_window :: "string list" where
  "spaced_window = [''# ifdef A'', ''# endif'', ''#else'']"

definition spaced_file :: "string list" where
  "spaced_file = with_newlines (spaced_window @ [''int b;'', ''int c;''])"

definition repeated_file :: "string list" where
  "repeated_file =
     with_newlines [''int a;'', ''int b;'', ''int c;'', ''int a;'', ''int b;'', ''int c;'']"

definition padded_middle_content :: string where
  "padded_middle_content = ''<fim_prefix>int n;<fim_suffix><fim_middle>  return n;  ''"

definition template_middle_content :: string where
  "template_middle_content = ''<fim_prefix>int n;<fim_suffix><fim_middle>std::vector<int> v;''"

definition newline_middle_content :: string where
  "newline_middle_content = ''<fim_prefix>int n;<fim_suffix><fim_middle>return n;'' @ [NL]"


definition blank_then_indented :: string where
  \<comment> \<open>an empty first line, then a line indented by six columns\<close>
  "blank_then_indented = [NL] @ ''      #pragma once''"

definition spaces_then_pragma :: string where
  \<comment> \<open>a first line of six spaces, then a line that is not indented\<close>
  "spaces_then_pragma = ''      '' @ [NL] @ ''#pragma once''"

definition fim_of :: "string \<Rightarrow> string \<Rightarrow> string" where
  "fim_of prefix middle = ''<fim_prefix>'' @ prefix @ ''<fim_suffix><fim_middle>'' @ middle"

definition include_content :: string where
  "include_content = fim_of ''#include <a.h>'' ''int x = foo(1);''"

definition plain_content :: string where
  \<comment> \<open>a middle that no rule of the meaningful-completion test accepts\<close>
  "plain_content = fim_of ''#include <a.h>'' ''x + y;''"

text \<open>
  Files whose lines do not hold the marker text \<open><fim_suffix>\<close>, and the same of the
  prefixes of the pairs already emitted.
\<close>

definition marker_free :: "string list \<Rightarrow> bool" where
  "marker_free lines = list_all (\<lambda>l. \<not> contains ''<fim_suffix>'' l) lines"

definition tags_free :: "ext_state \<Rightarrow> bool" where
  "tags_free st = list_all (\<lambda>t. \<not> contains ''<fim_suffix>'' (fst (fst t))) (fst st)"

definition collision_file :: "string list" where
  "collision_file =
     with_newlines [''A;'', ''B;'', ''C;<fim_suffix><fim_middle>D;'',
                    ''A;'', ''B;<fim_suffix><fim_middle>C;'', ''D;'']"





definition long_prefix :: string where
  "long_prefix = ''#include <vector>'' @ [NL] @ ''int compute_total(const std::vector<int>& values)''"

definition long_prefix_record :: fim_record where
  "long_prefix_record = [''content'' \<mapsto> JStr (fim_of long_prefix ''return values.size();'')]"




section \<open>Properties\<close>

subsection \<open>Strings\<close>

lemma split_on_not_Nil: "split_on d s \<noteq> []"
  by (induction s) (auto split: list.splits)


lemma startswith_Nil [simp]: "startswith s []"
  by (simp add: startswith_def)

lemma startswith_append: "startswith s p = (\<exists>t. s = p @ t)"
  unfolding startswith_def by (metis append_eq_conv_conj append_take_drop_id)

subsection \<open>The code-line classifier\<close>


lemma set_code_indices:
  "(i \<in> set (code_indices lines)) = (i < length lines \<and> is_code_line (lines ! i))"
  by (auto simp: code_indices_def)




subsection \<open>The preprocessor balance checker\<close>

text \<open>
  Claim C2 at a window the checker accepts. The code recognises an opener with
  \<open>#\s*if(def|ndef)?\b\<close>, so with whitespace after \<open>#\<close>, but \<open>#else\<close>, \<open>#elif\<close> and
  \<open>#endif\<close> only where the stripped line starts with these very characters. In
  \<open># ifdef A\<close>, \<open># endif\<close>, \<open>#else\<close> the \<open>#else\<close> has no open conditional above it under
  either reading of the directives, yet the code pushes on the first line, skips the
  second and finds the stack non-empty at the third: it reports the window valid, and
  the extractor emits a pair whose prefix holds the orphaned \<open>#else\<close>.
\<close>

theorem spaced_directives_evaluated:
  "\<not> has_invalid_preprocessor_structure spaced_window
   \<and> spec_invalid True spaced_window
   \<and> spec_invalid False spaced_window
   \<and> map (spec_directive True) spaced_window = [Opener, Endif, Else]
   \<and> map (spec_directive False) spaced_window = [NoDirective, NoDirective, Else]
   \<and> cleaned_context spaced_file (code_indices spaced_file) 3 4
       = Some (spaced_window @ [''int b;''])
   \<and> candidate spaced_file (code_indices spaced_file) 3 4 1
       = Some (join [NL] (spaced_window @ [''int b;'']), ''int c;'')
   \<and> has_invalid_preprocessor_structure [''#ifdef A'', ''#endif'', ''#else'']"
  by code_simp

subsection \<open>Deduplication in the pair extractor\<close>

lemma emit_inv:
  assumes "ext_inv st"
  shows "ext_inv (emit st k)"
proof (cases st)
  case (Pair ps seen)
  with assms have inv: "distinct (map fst ps)" "seen = set (map fst ps)"
    "map ((\<lambda>r. r ''content'') \<circ> snd) ps = map ((\<lambda>k. Some (JStr (fim_content k))) \<circ> fst) ps"
    by (simp_all add: ext_inv_def)
  show ?thesis
  proof (cases "k \<in> seen")
    case True
    with assms Pair show ?thesis by (simp add: emit_def)
  next
    case False
    with inv Pair show ?thesis by (simp add: emit_def ext_inv_def)
  qed
qed

lemma try_candidate_inv: "ext_inv st \<Longrightarrow> ext_inv (try_candidate lines ci ol idx st cl)"
  by (simp add: try_candidate_def emit_inv split: option.splits)

lemma foldl_inv:
  "(\<And>s x. P s \<Longrightarrow> P (f s x)) \<Longrightarrow> P s0 \<Longrightarrow> P (foldl f s0 xs)"
  by (induction xs arbitrary: s0) auto

lemma foldl_hit:
  assumes mono: "\<And>s y. P s \<Longrightarrow> P (f s y)" and hit: "\<And>s. P (f s x)" and mem: "x \<in> set xs"
  shows "P (foldl f s0 xs)"
  using mem
proof (induction xs arbitrary: s0)
  case Nil
  then show ?case by simp
next
  case (Cons y ys)
  show ?case
  proof (cases "x = y")
    case True
    have "P (f s0 y)" using hit True by simp
    then have "P (foldl f (f s0 y) ys)"
      by (rule foldl_inv [where P = P and f = f, rotated]) (rule mono)
    then show ?thesis by simp
  next
    case False
    with Cons.prems have "x \<in> set ys" by simp
    then have "P (foldl f (f s0 y) ys)" by (rule Cons.IH)
    then show ?thesis by simp
  qed
qed

lemma inner_loop_inv:
  "ext_inv st \<Longrightarrow> ext_inv (foldl (try_candidate lines ci ol idx) st lens)"
  by (rule foldl_inv [where P = ext_inv]) (rule try_candidate_inv)

lemma idx_loop_inv:
  "ext_inv st \<Longrightarrow>
   ext_inv (foldl (\<lambda>st idx. foldl (try_candidate lines ci ol idx) st lens) st idxs)"
  by (rule foldl_inv [where P = ext_inv]) (rule inner_loop_inv)

lemma strategy1_inv: "ext_inv st \<Longrightarrow> ext_inv (strategy1 lines ci mn mx st)"
  unfolding strategy1_def
  by (rule foldl_inv [where P = ext_inv]) (rule idx_loop_inv)

lemma strategy2_inv: "ext_inv st \<Longrightarrow> ext_inv (strategy2 lines ci mn mx mo st)"
  unfolding strategy2_def by (rule idx_loop_inv)

lemma extract_inv: "ext_inv (strategy2 lines ci mn mx mo (strategy1 lines ci mn mx ([], {})))"
  by (rule strategy2_inv, rule strategy1_inv) (simp add: ext_inv_def)

lemma emit_mono: "k \<in> snd st \<Longrightarrow> k \<in> snd (emit st k')"
  by (simp add: emit_def)

lemma emit_hit: "k \<in> snd (emit st k)"
  by (simp add: emit_def)

lemma try_candidate_mono: "k \<in> snd st \<Longrightarrow> k \<in> snd (try_candidate lines ci ol idx st cl)"
  by (simp add: try_candidate_def emit_mono split: option.splits)

lemma try_candidate_hit:
  "candidate lines ci idx cl ol = Some k \<Longrightarrow> k \<in> snd (try_candidate lines ci ol idx st cl)"
  by (simp add: try_candidate_def emit_hit)

lemma inner_loop_mono:
  "k \<in> snd st \<Longrightarrow> k \<in> snd (foldl (try_candidate lines ci ol idx) st lens)"
  by (rule foldl_inv [where P = "\<lambda>s. k \<in> snd s"]) (rule try_candidate_mono)

lemma inner_loop_hit:
  assumes "candidate lines ci idx cl ol = Some k" and "cl \<in> set lens"
  shows "k \<in> snd (foldl (try_candidate lines ci ol idx) st lens)"
  by (rule foldl_hit [where P = "\<lambda>s. k \<in> snd s" and x = cl])
     (rule try_candidate_mono, assumption, rule try_candidate_hit, rule assms(1), rule assms(2))

lemma idx_loop_mono:
  "k \<in> snd st \<Longrightarrow>
   k \<in> snd (foldl (\<lambda>st idx. foldl (try_candidate lines ci ol idx) st lens) st idxs)"
  by (rule foldl_inv [where P = "\<lambda>s. k \<in> snd s"]) (rule inner_loop_mono)

lemma idx_loop_hit:
  assumes "candidate lines ci idx cl ol = Some k" and "cl \<in> set lens" and "idx \<in> set idxs"
  shows "k \<in> snd (foldl (\<lambda>st idx. foldl (try_candidate lines ci ol idx) st lens) st idxs)"
  by (rule foldl_hit [where P = "\<lambda>s. k \<in> snd s" and x = idx])
     (rule inner_loop_mono, assumption, rule inner_loop_hit, rule assms(1), rule assms(2),
      rule assms(3))

lemma strategy1_mono: "k \<in> snd st \<Longrightarrow> k \<in> snd (strategy1 lines ci mn mx st)"
  unfolding strategy1_def
  by (rule foldl_inv [where P = "\<lambda>s. k \<in> snd s"]) (rule idx_loop_mono)

lemma strategy2_mono: "k \<in> snd st \<Longrightarrow> k \<in> snd (strategy2 lines ci mn mx mo st)"
  unfolding strategy2_def by (rule idx_loop_mono)

lemma strategy1_hit:
  assumes "candidate lines ci idx cl ol = Some k" and "ol = 1 \<or> ol = 2"
    and "idx + ol < length ci" and "mn \<le> cl" and "cl \<le> mx"
  shows "k \<in> snd (strategy1 lines ci mn mx st)"
  unfolding strategy1_def
proof (rule foldl_hit [where P = "\<lambda>s. k \<in> snd s" and x = ol])
  show "ol \<in> set [1, 2]" using assms(2) by auto
next
  fix s :: ext_state
  show "k \<in> snd (foldl (\<lambda>st idx. foldl (try_candidate lines ci ol idx) st [mn..<mx + 1]) s
                 [0..<length ci - ol])"
    using assms by (intro idx_loop_hit [where cl = cl and idx = idx]) auto
next
  fix s :: ext_state and y
  assume "k \<in> snd s"
  then show "k \<in> snd (foldl (\<lambda>st idx. foldl (try_candidate lines ci y idx) st [mn..<mx + 1]) s
                 [0..<length ci - y])"
    by (rule idx_loop_mono)
qed

lemma strategy2_hit:
  assumes "candidate lines ci idx cl mo = Some k" and "even idx"
    and "idx + mo < length ci" and "mn \<le> cl" and "cl \<le> mx"
  shows "k \<in> snd (strategy2 lines ci mn mx mo st)"
  unfolding strategy2_def
  using assms by (intro idx_loop_hit [where cl = cl and idx = idx]) auto

lemma distinct_count_le1: "distinct xs \<Longrightarrow> count_list xs k \<le> 1"
  by (induction xs) (auto simp: count_list_0_iff)

lemma contains_iff: "contains sub s = (\<exists>a b. s = a @ sub @ b)"
proof (induction s)
  case Nil
  show ?case by auto
next
  case (Cons c cs)
  have "(\<exists>a b. c # cs = a @ sub @ b) = ((\<exists>t. c # cs = sub @ t) \<or> (\<exists>a b. cs = a @ sub @ b))"
  proof
    assume "\<exists>a b. c # cs = a @ sub @ b"
    then obtain a b where ab: "c # cs = a @ sub @ b" by blast
    show "(\<exists>t. c # cs = sub @ t) \<or> (\<exists>a b. cs = a @ sub @ b)"
    proof (cases a)
      case Nil
      with ab show ?thesis by auto
    next
      case (Cons x a')
      with ab have "cs = a' @ sub @ b" by simp
      then show ?thesis by blast
    qed
  next
    assume "(\<exists>t. c # cs = sub @ t) \<or> (\<exists>a b. cs = a @ sub @ b)"
    then show "\<exists>a b. c # cs = a @ sub @ b"
    proof
      assume "\<exists>t. c # cs = sub @ t"
      then obtain t where "c # cs = [] @ sub @ t" by auto
      then show ?thesis by blast
    next
      assume "\<exists>a b. cs = a @ sub @ b"
      then obtain a b where "cs = a @ sub @ b" by blast
      then have "c # cs = (c # a) @ sub @ b" by simp
      then show ?thesis by blast
    qed
  qed
  with Cons show ?case by (simp add: startswith_append)
qed

lemma contains_appendI: "contains sub u \<Longrightarrow> contains sub (u @ t)"
  unfolding contains_iff by (metis append.assoc)

lemma startswith_before_char:
  assumes "startswith (u @ c # v) m" and "c \<notin> set m"
  shows "startswith u m"
proof (cases "length m \<le> length u")
  case True
  with assms(1) show ?thesis by (simp add: startswith_def)
next
  case False
  then have "length u < length m" by simp
  from assms(1) have "take (length m) (u @ c # v) = m" by (simp add: startswith_def)
  then have "m ! length u = (u @ c # v) ! length u"
    using \<open>length u < length m\<close> by (metis nth_take)
  then have "m ! length u = c" by simp
  with \<open>length u < length m\<close> assms(2) show ?thesis by (metis nth_mem)
qed

lemma contains_split_char:
  assumes "c \<notin> set m" and "m \<noteq> []"
  shows "contains m (u @ c # v) \<Longrightarrow> contains m u \<or> contains m v"
proof (induction u)
  case Nil
  have "\<not> startswith (c # v) m"
    using assms by (cases m) (auto simp: startswith_def)
  with Nil show ?case by simp
next
  case (Cons x u)
  show ?case
  proof (cases "startswith ((x # u) @ c # v) m")
    case True
    then have "startswith (x # u) m" using assms(1) by (rule startswith_before_char)
    then show ?thesis by simp
  next
    case False
    with Cons.prems have "contains m (u @ c # v)" by simp
    with Cons.IH show ?thesis by auto
  qed
qed

lemma contains_join:
  assumes "NL \<notin> set m" and "m \<noteq> []"
  shows "contains m (join [NL] ls) \<Longrightarrow> \<exists>l\<in>set ls. contains m l"
proof (induction "[NL]" ls rule: join.induct)
  case 1
  with assms show ?case by simp
next
  case (2 x)
  then show ?case by simp
next
  case (3 x y ys)
  from 3(2) have "contains m (x @ NL # join [NL] (y # ys))" by simp
  from contains_split_char [OF assms this]
  show ?case using 3(1) by auto
qed

lemma rstrip_nl_prefix: "\<exists>t. l = rstrip_nl l @ t"
proof -
  have "rev (dropWhile P (rev l)) @ rev (takeWhile P (rev l)) = l" for P
    by (metis rev_append rev_rev_ident takeWhile_dropWhile_id)
  then show ?thesis unfolding rstrip_nl_def rstrip_chars_def by metis
qed

lemma contains_rstrip_nl: "contains m (rstrip_nl l) \<Longrightarrow> contains m l"
  using rstrip_nl_prefix [of l] contains_appendI [of m "rstrip_nl l"] by metis

lemma set_clean_input_context: "set (clean_input_context ls) \<subseteq> set ls"
  unfolding clean_input_context_def using set_dropWhileD by fastforce

lemma code_indices_bound: "idx < length (code_indices lines) \<Longrightarrow> code_indices lines ! idx < length lines"
  using set_code_indices [of "code_indices lines ! idx" lines] nth_mem by blast

lemma cleaned_context_lines:
  assumes "idx < length (code_indices lines)"
    and "cleaned_context lines (code_indices lines) idx cl = Some ctx"
  shows "\<forall>c\<in>set ctx. \<exists>l\<in>set lines. c = rstrip_nl l"
proof -
  let ?ce = "int (code_indices lines ! idx)"
  let ?cs = "?ce - int cl + 1"
  from assms(2) have nn: "\<not> ?cs < 0"
    and ctx: "ctx = clean_input_context (map (\<lambda>i. rstrip_nl (lines ! i)) [nat ?cs..<nat (?ce + 1)])"
    by (auto simp: cleaned_context_def Let_def split: if_splits)
  have b: "nat (?ce + 1) \<le> length lines"
    using code_indices_bound [OF assms(1)] by simp
  show ?thesis
  proof
    fix c assume "c \<in> set ctx"
    with ctx set_clean_input_context have "c \<in> set (map (\<lambda>i. rstrip_nl (lines ! i)) [nat ?cs..<nat (?ce + 1)])"
      by blast
    then obtain i where "i < nat (?ce + 1)" "c = rstrip_nl (lines ! i)" by auto
    with b have "lines ! i \<in> set lines" by simp
    with \<open>c = rstrip_nl (lines ! i)\<close> show "\<exists>l\<in>set lines. c = rstrip_nl l" by blast
  qed
qed

lemma candidate_prefix_free:
  assumes "marker_free lines" and "idx < length (code_indices lines)"
    and "candidate lines (code_indices lines) idx cl ol = Some k"
  shows "\<not> contains ''<fim_suffix>'' (fst k)"
proof
  assume c: "contains ''<fim_suffix>'' (fst k)"
  from assms(3) obtain ctx where ctx: "cleaned_context lines (code_indices lines) idx cl = Some ctx"
    and k: "fst k = join [NL] ctx"
    by (auto simp: candidate_def Let_def split: option.splits if_splits)
  have "NL \<notin> set ''<fim_suffix>''" by (simp add: NL_def)
  with c k contains_join [of "''<fim_suffix>''" ctx]
  obtain x where x: "x \<in> set ctx" "contains ''<fim_suffix>'' x" by auto
  with cleaned_context_lines [OF assms(2) ctx] obtain l where "l \<in> set lines" "x = rstrip_nl l"
    by blast
  with x have "contains ''<fim_suffix>'' l" using contains_rstrip_nl by blast
  with \<open>l \<in> set lines\<close> assms(1) show False by (auto simp: marker_free_def list_all_iff)
qed

lemma startswith_append_long:
  "length m \<le> length u \<Longrightarrow> startswith (u @ v) m = startswith u m"
  by (simp add: startswith_def)

lemma before_first_marker:
  assumes "m = c # m'" and "c \<notin> set m'" and "\<not> contains m p"
  shows "before_first m (p @ m @ r) = Some p"
  using assms(3)
proof (induction p)
  case Nil
  show ?case using assms(1) by (simp add: startswith_def)
next
  case (Cons x p)
  from Cons.prems have ns: "\<not> startswith (x # p) m" and nc: "\<not> contains m p" by simp_all
  have "\<not> startswith ((x # p) @ m @ r) m"
  proof
    assume st: "startswith ((x # p) @ m @ r) m"
    show False
    proof (cases "length m \<le> length (x # p)")
      case True
      from st startswith_append_long [OF True, of "m @ r"]
      have "startswith (x # p) m" by simp
      with ns show False by simp
    next
      case False
      then have lt: "length (x # p) < length m" by simp
      from st have "take (length m) ((x # p) @ m @ r) = m" by (simp add: startswith_def)
      then have "m ! length (x # p) = ((x # p) @ m @ r) ! length (x # p)"
        using lt by (metis nth_take)
      also have "\<dots> = c" using assms(1) by (simp add: nth_append)
      finally have "m ! length (x # p) = c" .
      moreover have "m ! length (x # p) \<in> set m'"
        using lt assms(1) by (simp add: nth_Cons')
      ultimately show False using assms(2) by simp
    qed
  qed
  with Cons.IH [OF nc] show ?case by simp
qed

lemma fim_content_inj:
  assumes "fim_content k = fim_content k'"
    and "\<not> contains ''<fim_suffix>'' (fst k)" and "\<not> contains ''<fim_suffix>'' (fst k')"
  shows "k = k'"
proof -
  let ?r = "''<fim_middle>'' @ snd k" and ?r' = "''<fim_middle>'' @ snd k'"
  from assms(1) have e: "fst k @ ''<fim_suffix>'' @ ?r = fst k' @ ''<fim_suffix>'' @ ?r'"
    by (simp add: fim_content_def)
  have "before_first ''<fim_suffix>'' (fst k @ ''<fim_suffix>'' @ ?r) = Some (fst k)"
    by (rule before_first_marker [where c = "CHR ''<''" and m' = "''fim_suffix>''"])
       (use assms(2) in simp_all)
  moreover have "before_first ''<fim_suffix>'' (fst k' @ ''<fim_suffix>'' @ ?r') = Some (fst k')"
    by (rule before_first_marker [where c = "CHR ''<''" and m' = "''fim_suffix>''"])
       (use assms(3) in simp_all)
  ultimately have f: "fst k = fst k'" using e by simp
  with e have "snd k = snd k'" by simp
  with f show ?thesis by (simp add: prod_eq_iff)
qed

lemma read_back_prefix:
  assumes "\<not> contains ''<fim_suffix>'' (fst k)"
  shows "extract_fim_parts (fim_content k) ''prefix'' = Some (fst k)"
proof -
  let ?r = "''<fim_middle>'' @ snd k"
  have a: "after_first ''<fim_prefix>'' (fim_content k) = Some (fst k @ ''<fim_suffix>'' @ ?r)"
    by (simp add: fim_content_def startswith_def)
  have b: "before_first ''<fim_suffix>'' (fst k @ ''<fim_suffix>'' @ ?r) = Some (fst k)"
    by (rule before_first_marker [where c = "CHR ''<''" and m' = "''fim_suffix>''"])
       (use assms in simp_all)
  from a b have "between ''<fim_prefix>'' ''<fim_suffix>'' (fim_content k) = Some (fst k)"
    by (simp add: between_def)
  then show ?thesis
    by (simp add: extract_fim_parts_def Let_def split: option.splits)
qed

lemma foldl_inv_mem:
  "(\<And>s x. x \<in> set xs \<Longrightarrow> P s \<Longrightarrow> P (f s x)) \<Longrightarrow> P s0 \<Longrightarrow> P (foldl f s0 xs)"
  by (induction xs arbitrary: s0) auto

lemma emit_free:
  "tags_free st \<Longrightarrow> \<not> contains ''<fim_suffix>'' (fst k) \<Longrightarrow> tags_free (emit st k)"
  by (simp add: tags_free_def emit_def)

lemma try_candidate_free:
  assumes "marker_free lines" and "idx < length (code_indices lines)" and "tags_free st"
  shows "tags_free (try_candidate lines (code_indices lines) ol idx st cl)"
proof (cases "candidate lines (code_indices lines) idx cl ol")
  case None
  with assms(3) show ?thesis by (simp add: try_candidate_def)
next
  case (Some k)
  from candidate_prefix_free [OF assms(1,2) Some] assms(3) Some show ?thesis
    by (simp add: try_candidate_def emit_free)
qed

lemma idx_loop_free:
  assumes "marker_free lines" and "\<forall>idx\<in>set idxs. idx < length (code_indices lines)"
    and "tags_free st"
  shows "tags_free (foldl (\<lambda>st idx. foldl (try_candidate lines (code_indices lines) ol idx) st lens)
           st idxs)"
proof (rule foldl_inv_mem [where P = tags_free])
  show "tags_free st" by (rule assms(3))
next
  fix s :: ext_state and idx
  assume i: "idx \<in> set idxs" and s: "tags_free s"
  from i assms(2) have lt: "idx < length (code_indices lines)" by blast
  show "tags_free (foldl (try_candidate lines (code_indices lines) ol idx) s lens)"
    by (rule foldl_inv [where P = tags_free]) (rule try_candidate_free [OF assms(1) lt], assumption, rule s)
qed

lemma strategy1_free:
  assumes "marker_free lines" and "tags_free st"
  shows "tags_free (strategy1 lines (code_indices lines) mn mx st)"
  unfolding strategy1_def
proof (rule foldl_inv [where P = tags_free])
  show "tags_free st" by (rule assms(2))
next
  fix s :: ext_state and ol
  assume "tags_free s"
  then show "tags_free (foldl (\<lambda>st idx. foldl (try_candidate lines (code_indices lines) ol idx) st
                 [mn..<mx + 1]) s [0..<length (code_indices lines) - ol])"
    by (intro idx_loop_free assms(1)) auto
qed

lemma strategy2_free:
  assumes "marker_free lines" and "tags_free st"
  shows "tags_free (strategy2 lines (code_indices lines) mn mx mo st)"
  unfolding strategy2_def
  using assms by (intro idx_loop_free) auto

lemma extract_tagged_free:
  assumes "marker_free lines"
  shows "\<forall>t\<in>set (extract_tagged lines mn mx mo). \<not> contains ''<fim_suffix>'' (fst (fst t))"
proof -
  have "tags_free ([], {})" by (simp add: tags_free_def)
  from strategy2_free [OF assms strategy1_free [OF assms this]]
  show ?thesis by (simp add: extract_tagged_def tags_free_def Let_def list_all_iff)
qed


lemma distinct_count_eq1: "distinct xs \<Longrightarrow> x \<in> set xs \<Longrightarrow> count_list xs x = 1"
proof -
  assume d: "distinct xs" and m: "x \<in> set xs"
  from d have "count_list xs x \<le> 1" by (rule distinct_count_le1)
  moreover from m have "count_list xs x \<noteq> 0" by (simp add: count_list_0_iff)
  ultimately show ?thesis by simp
qed

lemma distinct_map_inj: "distinct xs \<Longrightarrow> inj_on f (set xs) \<Longrightarrow> distinct (map f xs)"
  by (simp add: distinct_map)

lemma in_set_mapI: "x \<in> set xs \<Longrightarrow> f x \<in> set (map f xs)"
  by simp

lemma candidate_emitted:
  assumes cand: "candidate lines (code_indices lines) idx cl ol = Some k"
    and rng: "in_strategy1 (code_indices lines) mn mx idx cl ol
              \<or> in_strategy2 (code_indices lines) mn mx mo idx cl ol"
  shows "k \<in> set (map fst (extract_tagged lines mn mx mo))"
proof -
  let ?ci = "code_indices lines"
  let ?s1 = "strategy1 lines ?ci mn mx ([], {})"
  let ?s2 = "strategy2 lines ?ci mn mx mo ?s1"
  have inv: "ext_inv ?s2" by (rule extract_inv)
  have keys: "fst ?s2 = extract_tagged lines mn mx mo"
    by (simp add: extract_tagged_def Let_def)
  have "k \<in> snd ?s2"
    using rng
  proof
    assume "in_strategy1 ?ci mn mx idx cl ol"
    then have "k \<in> snd ?s1"
      using cand by (intro strategy1_hit [where idx = idx and cl = cl and ol = ol])
                    (auto simp: in_strategy1_def)
    then show ?thesis by (rule strategy2_mono)
  next
    assume "in_strategy2 ?ci mn mx mo idx cl ol"
    then show ?thesis
      using cand by (intro strategy2_hit [where idx = idx and cl = cl])
                    (auto simp: in_strategy2_def)
  qed
  with inv show ?thesis by (simp add: ext_inv_def keys)
qed

lemma tagged_distinct: "distinct (map fst (extract_tagged lines mn mx mo))"
  using extract_inv [of lines "code_indices lines" mn mx mo]
  by (simp add: ext_inv_def extract_tagged_def Let_def)

lemma tagged_contents:
  "map (\<lambda>r. r ''content'') (extract_pairs_from_file lines mn mx mo)
     = map (\<lambda>k. Some (JStr (fim_content k))) (map fst (extract_tagged lines mn mx mo))"
  using extract_inv [of lines "code_indices lines" mn mx mo]
  by (simp add: ext_inv_def extract_tagged_def extract_pairs_from_file_def Let_def comp_def)

lemma contents_distinct:
  assumes "marker_free lines"
  shows "distinct (map (\<lambda>r. r ''content'') (extract_pairs_from_file lines mn mx mo))"
proof -
  let ?keys = "map fst (extract_tagged lines mn mx mo)"
  have free: "\<forall>k\<in>set ?keys. \<not> contains ''<fim_suffix>'' (fst k)"
    using extract_tagged_free [OF assms, of mn mx mo] by auto
  have inj: "inj_on (\<lambda>k. Some (JStr (fim_content k))) (set ?keys)"
  proof (rule inj_onI)
    fix k k' assume "k \<in> set ?keys" "k' \<in> set ?keys"
      and "Some (JStr (fim_content k)) = Some (JStr (fim_content k'))"
    with free show "k = k'" by (intro fim_content_inj) auto
  qed
  have "distinct (map (\<lambda>k. Some (JStr (fim_content k))) ?keys)"
    by (rule distinct_map_inj [OF tagged_distinct inj])
  then show ?thesis by (simp only: tagged_contents)
qed

text \<open>
  Claim C3, as stated, fails on a file that holds the marker text in its own lines.
  The two windows below give different pairs, so both are kept, but the two records
  have the same \<open>content\<close>: every later stage reads the same prefix and the same middle
  from them.
\<close>

theorem extract_pairs_collision_counterexample:
  "candidate collision_file (code_indices collision_file) 1 2 1
     = Some (''A;'' @ [NL] @ ''B;'', ''C;<fim_suffix><fim_middle>D;'')
   \<and> candidate collision_file (code_indices collision_file) 4 2 1
     = Some (''A;'' @ [NL] @ ''B;<fim_suffix><fim_middle>C;'', ''D;'')
   \<and> fim_content (''A;'' @ [NL] @ ''B;'', ''C;<fim_suffix><fim_middle>D;'')
     = fim_content (''A;'' @ [NL] @ ''B;<fim_suffix><fim_middle>C;'', ''D;'')
   \<and> \<not> distinct (map (\<lambda>r. r ''content'') (extract_pairs_from_file collision_file 2 10 2))"
  by code_simp

text \<open>
  Claim C3, amended. For every source file, the pairs \<open>(prefix, middle)\<close> from which the
  records are written, over both strategies, are pairwise different, each record's
  \<open>content\<close> is the two marker-delimited fields of its pair, and a pair that several
  candidate windows yield is written once. For every source file none of whose lines
  contains the text \<open><fim_suffix>\<close>, the emitted records themselves are pairwise
  different, the prefix read back from a record is the prefix of its pair, and a pair
  that candidate windows yield is the pair of exactly one emitted record.
\<close>

theorem extract_pairs_distinct:
  "distinct (map fst (extract_tagged lines mn mx mo))
   \<and> map (\<lambda>r. r ''content'') (extract_pairs_from_file lines mn mx mo)
       = map (\<lambda>(k, r). Some (JStr (''<fim_prefix>'' @ fst k @ ''<fim_suffix><fim_middle>'' @ snd k)))
           (extract_tagged lines mn mx mo)
   \<and> (candidate lines (code_indices lines) idx cl ol = Some k \<longrightarrow>
        in_strategy1 (code_indices lines) mn mx idx cl ol
          \<or> in_strategy2 (code_indices lines) mn mx mo idx cl ol \<longrightarrow>
        count_list (map fst (extract_tagged lines mn mx mo)) k = 1)
   \<and> (marker_free lines \<longrightarrow>
        distinct (map (\<lambda>r. r ''content'') (extract_pairs_from_file lines mn mx mo))
        \<and> distinct (extract_pairs_from_file lines mn mx mo)
        \<and> map (\<lambda>r. case r ''content'' of Some (JStr c) \<Rightarrow> extract_fim_parts c ''prefix''
                                          | _ \<Rightarrow> None)
              (extract_pairs_from_file lines mn mx mo)
            = map (\<lambda>(k, r). Some (fst k)) (extract_tagged lines mn mx mo)
        \<and> (candidate lines (code_indices lines) idx cl ol = Some k \<longrightarrow>
             in_strategy1 (code_indices lines) mn mx idx cl ol
               \<or> in_strategy2 (code_indices lines) mn mx mo idx cl ol \<longrightarrow>
             count_list (map (\<lambda>r. r ''content'') (extract_pairs_from_file lines mn mx mo))
               (Some (JStr (''<fim_prefix>'' @ fst k @ ''<fim_suffix><fim_middle>'' @ snd k))) = 1))"
proof -
  let ?tagged = "extract_tagged lines mn mx mo"
  let ?records = "extract_pairs_from_file lines mn mx mo"
  let ?keys = "map fst ?tagged"
  let ?g = "\<lambda>k. Some (JStr (fim_content k))"
  have d: "distinct ?keys" by (rule tagged_distinct)
  have tc: "map (\<lambda>r. r ''content'') ?records = map ?g ?keys" by (rule tagged_contents)
  then have c: "map (\<lambda>r. r ''content'') ?records
       = map (\<lambda>(k, r). Some (JStr (''<fim_prefix>'' @ fst k @ ''<fim_suffix><fim_middle>'' @ snd k)))
           ?tagged"
    by (simp add: fim_content_def comp_def case_prod_unfold)
  have e: "count_list ?keys k = 1"
    if "candidate lines (code_indices lines) idx cl ol = Some k"
      and "in_strategy1 (code_indices lines) mn mx idx cl ol
           \<or> in_strategy2 (code_indices lines) mn mx mo idx cl ol"
    using candidate_emitted [OF that] d by (intro distinct_count_eq1)
  have f: "distinct (map (\<lambda>r. r ''content'') ?records)
        \<and> distinct ?records
        \<and> map (\<lambda>r. case r ''content'' of Some (JStr c) \<Rightarrow> extract_fim_parts c ''prefix''
                                          | _ \<Rightarrow> None) ?records
            = map (\<lambda>(k, r). Some (fst k)) ?tagged
        \<and> (candidate lines (code_indices lines) idx cl ol = Some k \<longrightarrow>
             in_strategy1 (code_indices lines) mn mx idx cl ol
               \<or> in_strategy2 (code_indices lines) mn mx mo idx cl ol \<longrightarrow>
             count_list (map (\<lambda>r. r ''content'') ?records)
               (Some (JStr (''<fim_prefix>'' @ fst k @ ''<fim_suffix><fim_middle>'' @ snd k))) = 1)"
    if mf: "marker_free lines"
  proof -
    have dc: "distinct (map (\<lambda>r. r ''content'') ?records)" using mf by (rule contents_distinct)
    then have dr: "distinct ?records" by (simp add: distinct_map)
    have free: "\<forall>t\<in>set ?tagged. \<not> contains ''<fim_suffix>'' (fst (fst t))"
      using mf by (rule extract_tagged_free)
    have "map (\<lambda>r. case r ''content'' of Some (JStr c) \<Rightarrow> extract_fim_parts c ''prefix''
                                          | _ \<Rightarrow> None) ?records
          = map (\<lambda>x. case x of Some (JStr c) \<Rightarrow> extract_fim_parts c ''prefix'' | _ \<Rightarrow> None)
              (map (\<lambda>r. r ''content'') ?records)"
      by (simp add: comp_def)
    also have "\<dots> = map (\<lambda>t. extract_fim_parts (fim_content (fst t)) ''prefix'') ?tagged"
      by (simp add: tc comp_def)
    also have "\<dots> = map (\<lambda>(k, r). Some (fst k)) ?tagged"
      using free by (auto simp: read_back_prefix)
    finally have rb: "map (\<lambda>r. case r ''content'' of Some (JStr c) \<Rightarrow> extract_fim_parts c ''prefix''
                                          | _ \<Rightarrow> None) ?records
            = map (\<lambda>(k, r). Some (fst k)) ?tagged" .
    have cnt: "count_list (map (\<lambda>r. r ''content'') ?records)
               (Some (JStr (''<fim_prefix>'' @ fst k @ ''<fim_suffix><fim_middle>'' @ snd k))) = 1"
      if "candidate lines (code_indices lines) idx cl ol = Some k"
        and "in_strategy1 (code_indices lines) mn mx idx cl ol
             \<or> in_strategy2 (code_indices lines) mn mx mo idx cl ol"
    proof -
      from candidate_emitted [OF that] have "k \<in> set ?keys" .
      then have "?g k \<in> set (map ?g ?keys)" by (rule in_set_mapI)
      then have "?g k \<in> set (map (\<lambda>r. r ''content'') ?records)" by (simp only: tc)
      from distinct_count_eq1 [OF dc this] show ?thesis by (simp add: fim_content_def)
    qed
    from dc dr rb cnt show ?thesis by blast
  qed
  from d c e f show ?thesis by blast
qed

text \<open>
  Two windows of \<open>repeated_file\<close>, at the code lines 1 and 4, yield the same pair; one
  record is emitted for it.
\<close>

theorem extract_pairs_distinct_witness:
  "marker_free repeated_file
   \<and> candidate repeated_file (code_indices repeated_file) 1 2 1
     = Some (''int a;'' @ [NL] @ ''int b;'', ''int c;'')
   \<and> candidate repeated_file (code_indices repeated_file) 4 2 1
     = Some (''int a;'' @ [NL] @ ''int b;'', ''int c;'')
   \<and> in_strategy1 (code_indices repeated_file) 2 10 1 2 1
   \<and> in_strategy1 (code_indices repeated_file) 2 10 4 2 1
   \<and> count_list (map fst (extract_tagged repeated_file 2 10 2))
        (''int a;'' @ [NL] @ ''int b;'', ''int c;'') = 1
   \<and> count_list (map (\<lambda>r. r ''content'') (extract_pairs_from_file repeated_file 2 10 2))
        (Some (JStr (''<fim_prefix>'' @ (''int a;'' @ [NL] @ ''int b;'')
                     @ ''<fim_suffix><fim_middle>'' @ ''int c;''))) = 1
   \<and> distinct (extract_pairs_from_file repeated_file 2 10 2)"
proof -
  let ?k = "(''int a;'' @ [NL] @ ''int b;'', ''int c;'')"
  have mf: "marker_free repeated_file" by code_simp
  have c1: "candidate repeated_file (code_indices repeated_file) 1 2 1 = Some ?k"
    by code_simp
  have c4: "candidate repeated_file (code_indices repeated_file) 4 2 1 = Some ?k"
    by code_simp
  have r1: "in_strategy1 (code_indices repeated_file) 2 10 1 2 1" by code_simp
  have r4: "in_strategy1 (code_indices repeated_file) 2 10 4 2 1" by code_simp
  note main = extract_pairs_distinct [where lines = repeated_file and mn = 2 and mx = 10
      and mo = 2 and idx = 1 and cl = 2 and ol = 1 and k = ?k]
  from main c1 r1
  have a: "count_list (map fst (extract_tagged repeated_file 2 10 2)) ?k = 1" by blast
  from main mf c1 r1
  have b: "count_list (map (\<lambda>r. r ''content'') (extract_pairs_from_file repeated_file 2 10 2))
        (Some (JStr (''<fim_prefix>'' @ fst ?k @ ''<fim_suffix><fim_middle>'' @ snd ?k))) = 1"
    by blast
  from main mf have d: "distinct (extract_pairs_from_file repeated_file 2 10 2)" by blast
  from mf c1 c4 r1 r4 a b d show ?thesis by simp
qed

subsection \<open>Stripping\<close>



lemma endswith_single: "endswith s [c] = (s \<noteq> [] \<and> last s = c)"
proof (cases s rule: rev_cases)
  case Nil
  then show ?thesis by (simp add: endswith_def)
next
  case (snoc xs x)
  then show ?thesis by (auto simp: endswith_def)
qed








subsection \<open>Reading the middle back\<close>

lemma lazy_to_end_eq: "lazy_to_end r = (if r \<noteq> [] \<and> last r = NL then butlast r else r)"
  by (induction r) auto

lemma lazy_lt_cases:
  "lazy_to_lt_or_end r = takeWhile (\<lambda>c. c \<noteq> CHR ''<'') r
   \<or> lazy_to_lt_or_end r @ [NL] = takeWhile (\<lambda>c. c \<noteq> CHR ''<'') r"
  by (induction r) (auto simp: NL_def)

lemma strip_snoc_space: "py_isspace c \<Longrightarrow> strip (x @ [c]) = strip x"
proof -
  assume c: "py_isspace c"
  show ?thesis
  proof (cases "list_all py_isspace x")
    case True
    then have all: "\<forall>y\<in>set x. py_isspace y" by (simp add: list_all_iff)
    then have a: "lstrip x = []" by (simp add: lstrip_def)
    have "dropWhile py_isspace (x @ [c]) = dropWhile py_isspace [c]"
      using all by (intro dropWhile_append2) auto
    then have b: "lstrip (x @ [c]) = []" using c by (simp add: lstrip_def)
    show ?thesis by (simp only: strip_def a b)
  next
    case False
    then obtain y where "y \<in> set x" "\<not> py_isspace y" by (auto simp: list_all_iff)
    then have "lstrip (x @ [c]) = lstrip x @ [c]"
      by (simp add: lstrip_def dropWhile_append1)
    then show ?thesis using c by (simp add: strip_def rstrip_def)
  qed
qed

lemma strip_lazy_lt: "strip (lazy_to_lt_or_end r) = strip (takeWhile (\<lambda>c. c \<noteq> CHR ''<'') r)"
proof -
  have sp: "py_isspace NL" by (simp add: NL_def py_isspace_def)
  from lazy_lt_cases [of r] show ?thesis
  proof
    assume "lazy_to_lt_or_end r = takeWhile (\<lambda>c. c \<noteq> CHR ''<'') r"
    then show ?thesis by simp
  next
    assume "lazy_to_lt_or_end r @ [NL] = takeWhile (\<lambda>c. c \<noteq> CHR ''<'') r"
    then have "strip (takeWhile (\<lambda>c. c \<noteq> CHR ''<'') r) = strip (lazy_to_lt_or_end r @ [NL])"
      by simp
    also have "\<dots> = strip (lazy_to_lt_or_end r)" using sp by (rule strip_snoc_space)
    finally show ?thesis by simp
  qed
qed

lemma after_first_decomp: "after_first m s = Some r \<Longrightarrow> \<exists>pre. s = pre @ m @ r"
proof (induction s)
  case Nil
  then show ?case by (auto split: if_splits)
next
  case (Cons c cs)
  show ?case
  proof (cases "startswith (c # cs) m")
    case True
    with Cons.prems have "r = drop (length m) (c # cs)" by simp
    moreover from True have "c # cs = m @ drop (length m) (c # cs)"
      unfolding startswith_def by (metis append_take_drop_id)
    ultimately show ?thesis by (metis append_Nil)
  next
    case False
    with Cons.prems have "after_first m cs = Some r" by simp
    from Cons.IH [OF this] obtain pre where "cs = pre @ m @ r" by blast
    then have "c # cs = (c # pre) @ m @ r" by simp
    then show ?thesis by blast
  qed
qed



text \<open>
  Claim C9, as stated, fails. Phase 2 and Phase 3 strip the whitespace around the
  middle and end it at the first \<open><\<close>; Phase 1 and the composite scorer leave out a
  newline that ends the content.
\<close>

theorem extract_middle_counterexample:
  "after_first ''<fim_middle>'' padded_middle_content = Some ''  return n;  ''
   \<and> extract_fim_middle padded_middle_content = ''return n;''
   \<and> snd (extract_fim_components padded_middle_content) = ''return n;''
   \<and> after_first ''<fim_middle>'' template_middle_content = Some ''std::vector<int> v;''
   \<and> extract_fim_middle template_middle_content = ''std::vector''
   \<and> snd (extract_fim_components template_middle_content) = ''std::vector''
   \<and> after_first ''<fim_middle>'' newline_middle_content = Some (''return n;'' @ [NL])
   \<and> extract_fim_parts newline_middle_content ''middle'' = Some ''return n;''"
  by code_simp

text \<open>
  Claim C9, amended. Let \<open>rest\<close> be everything after the first \<open><fim_middle>\<close> marker of
  the content. Phase 1 and the composite scorer recover \<open>rest\<close> itself, whitespace and
  \<open><\<close> included, when the content does not end with a newline. Phase 2 and Phase 3
  recover \<open>rest\<close> with its leading and trailing whitespace stripped when \<open>rest\<close> has no
  \<open><\<close>.
\<close>

theorem extract_middle_recovers:
  "after_first ''<fim_middle>'' content = Some rest \<Longrightarrow>
     (\<exists>pre. content = pre @ ''<fim_middle>'' @ rest)
     \<and> (\<not> endswith content [NL] \<longrightarrow> extract_fim_parts content ''middle'' = Some rest)
     \<and> (CHR ''<'' \<notin> set rest \<longrightarrow>
          extract_fim_middle content = strip rest
          \<and> snd (extract_fim_components content) = strip rest)"
proof -
  assume a: "after_first ''<fim_middle>'' content = Some rest"
  from after_first_decomp [OF a] obtain pre where pre: "content = pre @ ''<fim_middle>'' @ rest"
    by blast
  have m1: "extract_fim_parts content ''middle'' = Some (lazy_to_end rest)"
    using a by (simp add: extract_fim_parts_def Let_def split: option.splits)
  have e1: "extract_fim_parts content ''middle'' = Some rest" if "\<not> endswith content [NL]"
  proof -
    from that pre have "\<not> (rest \<noteq> [] \<and> last rest = NL)"
      by (auto simp: endswith_single)
    with m1 show ?thesis by (simp add: lazy_to_end_eq)
  qed
  have e2: "extract_fim_middle content = strip rest
          \<and> snd (extract_fim_components content) = strip rest" if "CHR ''<'' \<notin> set rest"
  proof -
    from that have tw: "takeWhile (\<lambda>c. c \<noteq> CHR ''<'') rest = rest"
      by auto
    have "strip (lazy_to_lt_or_end rest) = strip rest" by (simp only: strip_lazy_lt tw)
    with a show ?thesis
      by (simp add: extract_fim_middle_def extract_fim_components_def Let_def)
  qed
  from pre e1 e2 show ?thesis by blast
qed

theorem extract_middle_recovers_witness:
  "after_first ''<fim_middle>'' padded_middle_content = Some ''  return n;  ''
   \<and> \<not> endswith padded_middle_content [NL]
   \<and> CHR ''<'' \<notin> set ''  return n;  ''
   \<and> extract_fim_parts padded_middle_content ''middle'' = Some ''  return n;  ''
   \<and> extract_fim_middle padded_middle_content = strip ''  return n;  ''
   \<and> after_first ''<fim_middle>'' template_middle_content = Some ''std::vector<int> v;''
   \<and> extract_fim_parts template_middle_content ''middle'' = Some ''std::vector<int> v;''"
proof -
  have a: "after_first ''<fim_middle>'' padded_middle_content = Some ''  return n;  ''"
    by code_simp
  have b: "\<not> endswith padded_middle_content [NL]" by code_simp
  have c: "CHR ''<'' \<notin> set ''  return n;  ''" by simp
  have d: "after_first ''<fim_middle>'' template_middle_content = Some ''std::vector<int> v;''"
    by code_simp
  have e: "\<not> endswith template_middle_content [NL]" by code_simp
  from extract_middle_recovers [OF a] b c
  have f: "extract_fim_parts padded_middle_content ''middle'' = Some ''  return n;  ''
           \<and> extract_fim_middle padded_middle_content = strip ''  return n;  ''"
    by blast
  from extract_middle_recovers [OF d] e
  have g: "extract_fim_parts template_middle_content ''middle'' = Some ''std::vector<int> v;''"
    by blast
  from a b c d f g show ?thesis by blast
qed


subsection \<open>Phase 2\<close>


lemma rstrip_idem: "rstrip (rstrip s) = rstrip s"
proof -
  have "dropWhile P (dropWhile P xs) = dropWhile P xs" for P and xs :: string
    by (induction xs) auto
  then show ?thesis by (simp add: rstrip_def)
qed

lemma lstrip_rstrip_fixed: "lstrip (rstrip (lstrip s)) = rstrip (lstrip s)"
proof (cases "rstrip (lstrip s)")
  case Nil
  then show ?thesis by (simp add: lstrip_def)
next
  case (Cons c cs)
  have "lstrip s \<noteq> []" using Cons by (auto simp: rstrip_def)
  then have hd: "\<not> py_isspace (hd (lstrip s))"
    unfolding lstrip_def by (simp add: hd_dropWhile)
  have "rev (lstrip s) \<noteq> []" using \<open>lstrip s \<noteq> []\<close> by simp
  obtain d ds where l: "lstrip s = d # ds" using \<open>lstrip s \<noteq> []\<close> by (cases "lstrip s") auto
  with hd have d: "\<not> py_isspace d" by simp
  have "dropWhile py_isspace (rev ds @ [d]) = dropWhile py_isspace (rev ds) @ [d]
        \<or> dropWhile py_isspace (rev ds @ [d]) = [d]"
    using d by (induction "rev ds" arbitrary: ds) (auto simp: dropWhile_append)
  then have "hd (rstrip (lstrip s)) = d"
    by (auto simp: rstrip_def l hd_append hd_rev last_rev)
  with Cons d show ?thesis by (simp add: lstrip_def)
qed

lemma strip_idem: "strip (strip s) = strip s"
  by (simp add: strip_def lstrip_rstrip_fixed rstrip_idem)


lemma extract_fim_middle_stripped: "strip (extract_fim_middle c) = extract_fim_middle c"
proof (cases "after_first ''<fim_middle>'' c")
  case None
  then show ?thesis by (simp add: extract_fim_middle_def strip_def lstrip_def rstrip_def)
next
  case (Some r)
  then show ?thesis by (simp add: extract_fim_middle_def strip_idem)
qed

lemma strip_Nil: "strip [] = []"
  by (simp add: strip_def lstrip_def rstrip_def)








subsection \<open>Phase 3\<close>









subsection \<open>The logical-flow predicate\<close>

lemma flow_loop_True: "flow_loop rules l m"
  by (induction rules l m rule: flow_loop.induct) auto

lemma has_flow_phase1: "has_logical_context_flow p m s"
  by (simp add: has_logical_context_flow_def Let_def split_on_not_Nil flow_loop_True)

lemma has_flow_composite: "has_logical_context_flow_composite p m s"
  by (simp add: has_logical_context_flow_composite_def Let_def split_on_not_Nil flow_loop_True)

lemma context_bonuses_ge: "s \<le> context_bonuses m s"
  by (simp add: context_bonuses_def Let_def)

lemma context_bonuses_le: "context_bonuses m s \<le> s + 4 / 10"
  by (simp add: context_bonuses_def Let_def)


lemma context_bonuses_add: "context_bonuses m s = s + context_bonuses m 0"
  by (simp add: context_bonuses_def Let_def)

text \<open>
  Claim C10: \<open>has_logical_context_flow\<close> is true of every input, in Phase 1 and in
  the composite scorer. So for every record whose prefix check passes, the score is
  the sum of the meaningful-completion part (0.4 or 0), the 0.2 of the logical-flow
  bonus and the three bonuses on the middle, capped at 1: the 0.2 is a term of every
  such score. The \<open>has_logical_flow\<close> metric of every scored record is true.
\<close>

theorem logical_flow_always:
  "has_logical_context_flow prefix middle suffix
   \<and> has_logical_context_flow_composite prefix middle suffix
   \<and> (starts_with_complete_code_line (get_part parts ''prefix'') \<longrightarrow>
        calculate_quality_score parts
          = min ((if is_meaningful_code_completion (get_part parts ''middle'')
                       (get_part parts ''prefix'') then 4 / 10 else 0)
                 + 2 / 10 + context_bonuses (get_part parts ''middle'') 0) 1
        \<and> calculate_quality_score parts \<ge> 2 / 10)
   \<and> (starts_with_complete_code_line_composite (get_part parts ''prefix'') \<longrightarrow>
        calculate_phase1_score parts
          = min ((if is_meaningful_code_completion_composite (get_part parts ''middle'')
                       (get_part parts ''prefix'') then 4 / 10 else 0)
                 + 2 / 10 + context_bonuses (get_part parts ''middle'') 0) 1
        \<and> calculate_phase1_score parts \<ge> 2 / 10)
   \<and> (comprehensive_scores content = Some (scores, metrics) \<longrightarrow> has_logical_flow metrics)"
proof -
  let ?m = "get_part parts ''middle''"
  have nonneg: "0 \<le> context_bonuses ?m 0" by (rule context_bonuses_ge)
  have a: "calculate_quality_score parts
          = min ((if is_meaningful_code_completion ?m (get_part parts ''prefix'')
                  then 4 / 10 else 0) + 2 / 10 + context_bonuses ?m 0) 1
        \<and> calculate_quality_score parts \<ge> 2 / 10"
    if "starts_with_complete_code_line (get_part parts ''prefix'')"
  proof -
    let ?b = "if is_meaningful_code_completion ?m (get_part parts ''prefix'')
              then 4 / 10 else (0::rat)"
    have "calculate_quality_score parts = min (context_bonuses ?m (?b + 2 / 10)) 1"
      using that by (simp add: calculate_quality_score_def Let_def has_flow_phase1)
    then have e: "calculate_quality_score parts = min (?b + 2 / 10 + context_bonuses ?m 0) 1"
      using context_bonuses_add [of ?m "?b + 2 / 10"] by simp
    have "0 \<le> ?b" by simp
    with e nonneg show ?thesis by simp
  qed
  have b: "calculate_phase1_score parts
          = min ((if is_meaningful_code_completion_composite ?m (get_part parts ''prefix'')
                  then 4 / 10 else 0) + 2 / 10 + context_bonuses ?m 0) 1
        \<and> calculate_phase1_score parts \<ge> 2 / 10"
    if "starts_with_complete_code_line_composite (get_part parts ''prefix'')"
  proof -
    let ?b = "if is_meaningful_code_completion_composite ?m (get_part parts ''prefix'')
              then 4 / 10 else (0::rat)"
    have "calculate_phase1_score parts = min (context_bonuses ?m (?b + 2 / 10)) 1"
      using that by (simp add: calculate_phase1_score_def Let_def has_flow_composite)
    then have e: "calculate_phase1_score parts = min (?b + 2 / 10 + context_bonuses ?m 0) 1"
      using context_bonuses_add [of ?m "?b + 2 / 10"] by simp
    have "0 \<le> ?b" by simp
    with e nonneg show ?thesis by simp
  qed
  have c: "has_logical_flow metrics" if "comprehensive_scores content = Some (scores, metrics)"
    using that by (auto simp: comprehensive_scores_def Let_def has_flow_composite split: if_splits)
  from a b c has_flow_phase1 has_flow_composite show ?thesis by blast
qed

text \<open>
  At a record whose middle is not a meaningful completion the score is the flow bonus
  and the length bonus alone.
\<close>

theorem logical_flow_always_witness:
  "has_logical_context_flow ''#include <a.h>'' ''int x = foo(1);'' []
   \<and> starts_with_complete_code_line (get_part (extract_fim_parts include_content) ''prefix'')
   \<and> calculate_quality_score (extract_fim_parts include_content)
       = min (4 / 10 + 2 / 10 + 2 / 10) 1
   \<and> starts_with_complete_code_line (get_part (extract_fim_parts plain_content) ''prefix'')
   \<and> \<not> is_meaningful_code_completion (get_part (extract_fim_parts plain_content) ''middle'')
         (get_part (extract_fim_parts plain_content) ''prefix'')
   \<and> context_bonuses (get_part (extract_fim_parts plain_content) ''middle'') 0 = 1 / 10
   \<and> calculate_quality_score (extract_fim_parts plain_content) = min (0 + 2 / 10 + 1 / 10) 1
   \<and> starts_with_complete_code_line_composite
        (get_part (extract_fim_parts include_content) ''prefix'')
   \<and> calculate_phase1_score (extract_fim_parts include_content) \<ge> 2 / 10
   \<and> (case comprehensive_scores include_content of
          None \<Rightarrow> False | Some (scores, metrics) \<Rightarrow> has_logical_flow metrics)"
proof -
  let ?pi = "extract_fim_parts include_content"
  let ?pp = "extract_fim_parts plain_content"
  have a: "starts_with_complete_code_line (get_part ?pi ''prefix'')" by code_simp
  have a1: "is_meaningful_code_completion (get_part ?pi ''middle'') (get_part ?pi ''prefix'')"
    by code_simp
  have a2: "context_bonuses (get_part ?pi ''middle'') 0 = 2 / 10" by code_simp
  have b: "starts_with_complete_code_line_composite (get_part ?pi ''prefix'')" by code_simp
  have p: "starts_with_complete_code_line (get_part ?pp ''prefix'')" by code_simp
  have p1: "\<not> is_meaningful_code_completion (get_part ?pp ''middle'') (get_part ?pp ''prefix'')"
    by code_simp
  have p2: "context_bonuses (get_part ?pp ''middle'') 0 = 1 / 10" by code_simp
  from logical_flow_always [where parts = ?pi] a a1 a2
  have s1: "calculate_quality_score ?pi = min (4 / 10 + 2 / 10 + 2 / 10) 1"
    by simp
  from logical_flow_always [where parts = ?pp] p p1 p2
  have s2: "calculate_quality_score ?pp = min (0 + 2 / 10 + 1 / 10) 1"
    by simp
  from logical_flow_always [where parts = ?pi] b
  have s3: "calculate_phase1_score ?pi \<ge> 2 / 10" by blast
  have f: "has_logical_context_flow ''#include <a.h>'' ''int x = foo(1);'' []"
    using logical_flow_always [where prefix = "''#include <a.h>''"
        and middle = "''int x = foo(1);''" and suffix = "[]"] by blast
  have c: "comprehensive_scores include_content \<noteq> None" by code_simp
  then obtain scores metrics
    where d: "comprehensive_scores include_content = Some (scores, metrics)"
    by (cases "comprehensive_scores include_content") auto
  from logical_flow_always [where content = include_content and scores = scores
      and metrics = metrics] d
  have "has_logical_flow metrics" by blast
  with d have e: "case comprehensive_scores include_content of
          None \<Rightarrow> False | Some (scores, metrics) \<Rightarrow> has_logical_flow metrics"
    by simp
  from f a s1 p p1 p2 s2 b s3 e show ?thesis by blast
qed

subsection \<open>Score ranges\<close>

lemma phase1_score_bounds: "0 \<le> calculate_quality_score parts \<and> calculate_quality_score parts \<le> 1"
proof -
  let ?m = "get_part parts ''middle''"
  have "(0::rat) \<le> context_bonuses ?m x" if "0 \<le> x" for x
    using context_bonuses_ge [of x ?m] that by linarith
  then show ?thesis
    by (simp add: calculate_quality_score_def Let_def)
qed

lemma composite_phase1_bounds: "0 \<le> calculate_phase1_score parts \<and> calculate_phase1_score parts \<le> 1"
proof -
  let ?m = "get_part parts ''middle''"
  have "(0::rat) \<le> context_bonuses ?m x" if "0 \<le> x" for x
    using context_bonuses_ge [of x ?m] that by linarith
  then show ?thesis
    by (simp add: calculate_phase1_score_def Let_def)
qed

lemma clamp01: "0 \<le> min (max (x::rat) 0) 1 \<and> min (max x 0) 1 \<le> 1"
  by simp

lemma phase2_score_bounds: "0 \<le> calculate_middle_quality_score m \<and> calculate_middle_quality_score m \<le> 1"
  unfolding calculate_middle_quality_score_def Let_def using clamp01 by (simp del: min_less_iff_conj)

lemma composite_phase2_bounds: "0 \<le> calculate_phase2_score m \<and> calculate_phase2_score m \<le> 1"
  unfolding calculate_phase2_score_def Let_def by simp

lemma phase3_score_bounds: "0 \<le> calculate_length_quality_score p m \<and> calculate_length_quality_score p m \<le> 1"
  unfolding calculate_length_quality_score_def Let_def by (simp split: prod.splits)

lemma composite_phase3_bounds: "0 \<le> calculate_phase3_score p m \<and> calculate_phase3_score p m \<le> 1"
  unfolding calculate_phase3_score_def Let_def by (simp split: prod.splits)

lemma composite_bounds: "0 \<le> calculate_composite_score a b c \<and> calculate_composite_score a b c \<le> 1"
  unfolding calculate_composite_score_def Let_def by simp


text \<open>
  Claim C7: the Phase-1 context score, the Phase-2 middle score, the Phase-3 length
  score, the three scores the composite stage recomputes, and the composite score (of
  any three numbers, and so of the three recomputed scores) lie between 0 and 1.
\<close>

theorem quality_scores_in_unit_interval:
  "0 \<le> calculate_quality_score parts \<and> calculate_quality_score parts \<le> 1
   \<and> 0 \<le> calculate_middle_quality_score middle \<and> calculate_middle_quality_score middle \<le> 1
   \<and> 0 \<le> calculate_length_quality_score prefix middle
   \<and> calculate_length_quality_score prefix middle \<le> 1
   \<and> 0 \<le> calculate_phase1_score parts \<and> calculate_phase1_score parts \<le> 1
   \<and> 0 \<le> calculate_phase2_score middle \<and> calculate_phase2_score middle \<le> 1
   \<and> 0 \<le> calculate_phase3_score prefix middle \<and> calculate_phase3_score prefix middle \<le> 1
   \<and> 0 \<le> calculate_composite_score p1 p2 p3 \<and> calculate_composite_score p1 p2 p3 \<le> 1
   \<and> 0 \<le> calculate_composite_score (calculate_phase1_score parts)
            (calculate_phase2_score middle) (calculate_phase3_score prefix middle)
   \<and> calculate_composite_score (calculate_phase1_score parts)
            (calculate_phase2_score middle) (calculate_phase3_score prefix middle) \<le> 1"
  using phase1_score_bounds [of parts] phase2_score_bounds [of middle]
    phase3_score_bounds [of prefix middle] composite_phase1_bounds [of parts]
    composite_phase2_bounds [of middle] composite_phase3_bounds [of prefix middle]
    composite_bounds [of p1 p2 p3]
    composite_bounds [of "calculate_phase1_score parts" "calculate_phase2_score middle"
      "calculate_phase3_score prefix middle"]
  by blast

theorem quality_scores_in_unit_interval_witness:
  "calculate_quality_score (extract_fim_parts include_content) = 8 / 10
   \<and> calculate_middle_quality_score ''int x = foo(1);'' = 95 / 100
   \<and> 0 \<le> calculate_composite_score (calculate_phase1_score (extract_fim_parts include_content))
            (calculate_phase2_score ''int x = foo(1);'')
            (calculate_phase3_score ''#include <a.h>'' ''int x = foo(1);'')
   \<and> calculate_composite_score (calculate_phase1_score (extract_fim_parts include_content))
            (calculate_phase2_score ''int x = foo(1);'')
            (calculate_phase3_score ''#include <a.h>'' ''int x = foo(1);'') \<le> 1
   \<and> calculate_composite_score 2 2 2 = 1"
proof -
  have a: "calculate_quality_score (extract_fim_parts include_content) = 8 / 10" by code_simp
  have b: "calculate_middle_quality_score ''int x = foo(1);'' = 95 / 100" by code_simp
  have c: "calculate_composite_score 2 2 2 = 1" by (simp add: calculate_composite_score_def)
  from quality_scores_in_unit_interval [where parts = "extract_fim_parts include_content"
      and middle = "''int x = foo(1);''" and prefix = "''#include <a.h>''"] a b c
  show ?thesis by blast
qed

subsection \<open>Running a filter on its own output\<close>

lemma map_filter_idem:
  assumes "\<And>x y. f x = Some y \<Longrightarrow> f y = Some y"
  shows "List.map_filter f (List.map_filter f xs) = List.map_filter f xs"
proof (induction xs)
  case Nil
  show ?case by simp
next
  case (Cons x xs)
  show ?case
  proof (cases "f x")
    case None
    with Cons show ?thesis by simp
  next
    case (Some y)
    with assms have "f y = Some y" by simp
    with Some Cons show ?thesis by simp
  qed
qed

lemma content_upd: "k \<noteq> ''content'' \<Longrightarrow> task_content (t(k \<mapsto> v)) = task_content t"
  by (simp add: task_content_def)

lemma phase1_again:
  assumes "phase1_record th task = Some task'"
  shows "phase1_record th task' = Some task'"
proof -
  from assms obtain c where c: "task_content task = JStr c"
    by (auto simp: phase1_record_def split: jval.splits)
  let ?q = "calculate_quality_score (extract_fim_parts c)"
  from assms c have ok: "extract_fim_parts c ''prefix'' \<noteq> None" "extract_fim_parts c ''middle'' \<noteq> None"
    "?q \<ge> th"
    and t': "task' = task(''quality_score'' \<mapsto> JNum ?q, ''quality_phase'' \<mapsto> JStr ''phase1_context_quality'')"
    by (auto simp: phase1_record_def Let_def split: if_splits)
  have c': "task_content task' = JStr c"
    by (simp add: t' content_upd c)
  have "task'(''quality_score'' \<mapsto> JNum ?q, ''quality_phase'' \<mapsto> JStr ''phase1_context_quality'') = task'"
    by (auto simp: t')
  with ok c' show ?thesis
    by (simp add: phase1_record_def Let_def)
qed

lemma phase2_again:
  assumes "phase2_record data = Some data'"
  shows "phase2_record data' = Some data'"
proof -
  let ?m = "case task_content data of JStr content \<Rightarrow> extract_fim_middle content | _ \<Rightarrow> []"
  obtain rej reason where r: "should_reject_middle ?m = (rej, reason)" by (cases "should_reject_middle ?m")
  from assms r have nr: "\<not> rej"
    and d': "data' = data(''quality_phase2'' \<mapsto> JStr ''passed_middle_content_filter'',
                      ''quality_middle_reason'' \<mapsto> JStr reason,
                      ''quality_middle_score'' \<mapsto> JNum (calculate_middle_quality_score ?m))"
    by (auto simp: phase2_record_def Let_def split: if_splits)
  have c': "task_content data' = task_content data"
    by (simp add: d' content_upd)
  have "data'(''quality_phase2'' \<mapsto> JStr ''passed_middle_content_filter'',
                      ''quality_middle_reason'' \<mapsto> JStr reason,
                      ''quality_middle_score'' \<mapsto> JNum (calculate_middle_quality_score ?m)) = data'"
    by (auto simp: d')
  with r nr c' show ?thesis
    by (simp add: phase2_record_def Let_def)
qed

lemma phase3_again:
  assumes "phase3_record data = Some data'"
  shows "phase3_record data' = Some data'"
proof -
  let ?pm = "case task_content data of JStr content \<Rightarrow> extract_fim_components content | _ \<Rightarrow> ([], [])"
  obtain p m where pm: "?pm = (p, m)" by (cases ?pm)
  obtain rej reason where r: "should_reject_improved p m = (rej, reason)"
    by (cases "should_reject_improved p m")
  let ?upd = "\<lambda>d::fim_record. d(''quality_phase3b'' \<mapsto> JStr ''passed_length_based_filter'',
                      ''quality_length_reason'' \<mapsto> JStr reason,
                      ''quality_length_score'' \<mapsto> JNum (calculate_length_quality_score p m),
                      ''quality_prefix_length'' \<mapsto> JNum (of_nat (length p)),
                      ''quality_middle_length'' \<mapsto> JNum (of_nat (length m)),
                      ''quality_ratio'' \<mapsto>
                         JNum (if length p > 0
                               then of_nat (length m) / of_nat (length p) else 0))"
  from assms pm r have nr: "\<not> rej" and d': "data' = ?upd data"
    by (auto simp: phase3_record_def Let_def split: if_splits)
  have c': "task_content data' = task_content data"
    by (simp add: d' content_upd)
  have "?upd data' = data'"
    by (auto simp: d')
  with r nr c' pm show ?thesis
    by (simp add: phase3_record_def Let_def)
qed


text \<open>
  Claim C8: a record that Phase 1, Phase 2 or Phase 3 accepts, rewritten with that
  phase's annotation fields, is accepted by the same phase again and comes out
  unchanged; so each filter, run on its own output, keeps every record.
\<close>

theorem phase_filters_idempotent:
  "(phase1_record th task = Some task' \<longrightarrow> phase1_record th task' = Some task')
   \<and> (phase2_record task = Some task' \<longrightarrow> phase2_record task' = Some task')
   \<and> (phase3_record task = Some task' \<longrightarrow> phase3_record task' = Some task')
   \<and> filter_quality_fim_tasks th (filter_quality_fim_tasks th tasks) = filter_quality_fim_tasks th tasks
   \<and> filter_dataset (filter_dataset tasks) = filter_dataset tasks
   \<and> filter_phase3b (filter_phase3b tasks) = filter_phase3b tasks"
proof -
  have l1: "filter_quality_fim_tasks th (filter_quality_fim_tasks th tasks)
              = filter_quality_fim_tasks th tasks"
    unfolding filter_quality_fim_tasks_def by (rule map_filter_idem) (rule phase1_again)
  have l2: "filter_dataset (filter_dataset tasks) = filter_dataset tasks"
    unfolding filter_dataset_def by (rule map_filter_idem) (rule phase2_again)
  have l3: "filter_phase3b (filter_phase3b tasks) = filter_phase3b tasks"
    unfolding filter_phase3b_def by (rule map_filter_idem) (rule phase3_again)
  from l1 l2 l3 phase1_again [of th task task'] phase2_again [of task task']
    phase3_again [of task task']
  show ?thesis by blast
qed


theorem phase_filters_idempotent_witness:
  "(\<exists>t. phase1_record (1 / 2) [''content'' \<mapsto> JStr include_content] = Some t
        \<and> phase1_record (1 / 2) t = Some t)
   \<and> (\<exists>t. phase2_record [''content'' \<mapsto> JStr include_content] = Some t
        \<and> phase2_record t = Some t)
   \<and> (\<exists>t. phase3_record long_prefix_record = Some t \<and> phase3_record t = Some t)
   \<and> length (filter_dataset [[''content'' \<mapsto> JStr include_content]]) = 1
   \<and> filter_dataset (filter_dataset [[''content'' \<mapsto> JStr include_content]])
       = filter_dataset [[''content'' \<mapsto> JStr include_content]]"
proof -
  let ?r = "[''content'' \<mapsto> JStr include_content]"
  have "phase1_record (1 / 2) ?r \<noteq> None" by code_simp
  then obtain t1 where t1: "phase1_record (1 / 2) ?r = Some t1" by auto
  have "phase2_record ?r \<noteq> None" by code_simp
  then obtain t2 where t2: "phase2_record ?r = Some t2" by auto
  have "phase3_record long_prefix_record \<noteq> None" by code_simp
  then obtain t3 where t3: "phase3_record long_prefix_record = Some t3" by auto
  from phase_filters_idempotent [where th = "1 / 2" and task = ?r and task' = t1] t1
  have a: "phase1_record (1 / 2) t1 = Some t1" by blast
  from phase_filters_idempotent [where task = ?r and task' = t2 and tasks = "[?r]"] t2
  have b: "phase2_record t2 = Some t2"
    and d: "filter_dataset (filter_dataset [?r]) = filter_dataset [?r]" by blast+
  from phase_filters_idempotent [where task = long_prefix_record and task' = t3] t3
  have c: "phase3_record t3 = Some t3" by blast
  have e: "length (filter_dataset [?r]) = 1"
    using t2 by (simp add: filter_dataset_def)
  from t1 a t2 b t3 c d e show ?thesis by blast
qed

subsection \<open>The prefix check and the first line\<close>

text \<open>
  Claim C4 at two prefixes. The indentation is measured on \<open>lines[0]\<close>, not on the
  first line that is not blank. With an empty first line and a second line indented by
  six columns the check passes and the record scores 0.8; with a first line of six
  spaces and a \<open>#pragma\<close> that is not indented the check fails and the record scores 0.
  Both copies of the check behave so.
\<close>

theorem prefix_check_reads_first_line:
  "first_nonblank (split_on NL blank_then_indented) = Some ''#pragma once''
   \<and> leading_spaces_of (split_on NL blank_then_indented) = 0
   \<and> starts_with_complete_code_line blank_then_indented
   \<and> starts_with_complete_code_line_composite blank_then_indented
   \<and> calculate_quality_score (extract_fim_parts (fim_of blank_then_indented ''int x = 1;''))
       = 8 / 10
   \<and> first_nonblank (split_on NL spaces_then_pragma) = Some ''#pragma once''
   \<and> leading_spaces_of (split_on NL spaces_then_pragma) = 6
   \<and> \<not> starts_with_complete_code_line spaces_then_pragma
   \<and> \<not> starts_with_complete_code_line_composite spaces_then_pragma
   \<and> calculate_quality_score (extract_fim_parts (fim_of spaces_then_pragma ''int x = 1;'')) = 0"
  by code_simp

end
